theory Spec2Isabelle
  imports
    Main
    "HOL-Library.Sublist"
    "HOL-Library.Char_ord"
    "HOL-Library.List_Lexorder"
    "HOL-Library.Product_Lexorder"
    "HOL-Library.AList"
    "HOL-Library.Multiset"
begin

section \<open>Data model\<close>

text \<open>
  Modelled from the spec: \<open>model.Storage\<close> (internal/model is not part of the sources at
  hand). The fields are the ones the operations package reads and writes; \<open>ID\<close> is Go's
  \<open>uint\<close>, \<open>Index\<close> Go's \<open>int\<close> (only compared), \<open>Modified\<close> a \<open>time.Time\<close>
  (an abstract instant).
\<close>

record Storage =
  ID :: nat
  MountPath :: string
  Index :: int
  Driver :: string
  Addition :: string
  Modified :: nat

text \<open>\<open>model.Object\<close>, the synthetic entry built by \<open>GetStorageVirtualFilesByPath\<close>.\<close>

record Object =
  Name :: string
  Size :: int
  Modified_obj :: nat
  IsFolder :: bool

text \<open>
  Errors are values. \<open>Errorf\<close>, \<open>WithMessage\<close> and \<open>WithStack\<close> are the three
  constructors of \<open>github.com/pkg/errors\<close> the code uses; \<open>Cause\<close> is an error raised by
  an external collaborator (the database handle, a driver).
\<close>

datatype error =
    Errorf string
  | WithMessage error string
  | WithStack error
  | Cause string

text \<open>A Go run-time panic: a slice indexed out of its range.\<close>

datatype panic = IndexOutOfRange

text \<open>
  A \<open>driver.Driver\<close> value is an interface holding a pointer to a driver object. The
  pointer is a \<open>ref\<close>; the object it points to lives in the heap of the state and exposes
  its bound storage through \<open>GetStorage\<close>.
\<close>

type_synonym ref = nat

record driver =
  storage :: Storage

text \<open>
  Modelled from the spec: \<open>generic_sync.MapOf\<close> (pkg/generic_sync is not part of the
  sources at hand), section 4.1: \<open>Load\<close>, \<open>Store\<close>, \<open>Delete\<close>, \<open>Range\<close>,
  \<open>Values\<close>. The map is an association list; the order of the list is the order in which
  \<open>Range\<close> and \<open>Values\<close> visit the entries on this call, which the map does not promise.
\<close>

type_synonym ('k, 'v) MapOf = "('k \<times> 'v) list"

definition Load :: "('k, 'v) MapOf \<Rightarrow> 'k \<Rightarrow> 'v option" where
  "Load m k = map_of m k"

definition Store :: "('k, 'v) MapOf \<Rightarrow> 'k \<Rightarrow> 'v \<Rightarrow> ('k, 'v) MapOf" where
  "Store m k v = AList.update k v m"

definition Delete :: "('k, 'v) MapOf \<Rightarrow> 'k \<Rightarrow> ('k, 'v) MapOf" where
  "Delete m k = AList.delete k m"

definition Range :: "('k, 'v) MapOf \<Rightarrow> ('k \<times> 'v) list" where
  "Range m = m"

definition Values :: "('k, 'v) MapOf \<Rightarrow> 'v list" where
  "Values m = map snd m"

text \<open>
  The state: the two package variables \<open>storagesMap\<close> and \<open>balanceMap\<close>, the heap of
  driver objects with its allocation pointer, and the rows of the storage table.
\<close>

record state =
  storagesMap :: "(string, ref) MapOf"
  balanceMap :: "(string, int) MapOf"
  heap :: "ref \<Rightarrow> driver"
  nextRef :: ref
  rows :: "nat \<rightharpoonup> Storage"

text \<open>
  The helpers of \<open>pkg/utils\<close> are not part of the sources at hand; the operations take them
  as parameters.
\<close>

record utils =
  StandardizePath :: "string \<Rightarrow> string"
  GetActualVirtualPath :: "string \<Rightarrow> string"
  IsBalance :: "string \<Rightarrow> bool"

text \<open>
  What the outside world answers during one lifecycle call: the clock, the table of driver
  constructors (\<open>GetDriverNew\<close>, with the freshly constructed object), whether each call on
  the database handle fails, and whether \<open>Drop\<close> and \<open>Init\<close> of the driver fail (and in
  what state a failing call leaves the object).
\<close>

record ext =
  Now :: nat
  GetDriverNew :: "string \<Rightarrow> error + driver"
  gormCreate :: "error + nat"
  gormFirst :: "error option"
  gormSave :: "error option"
  gormDelete :: "error option"
  DropFault :: "(error \<times> driver) option"
  InitFault :: "(error \<times> driver) option"

section \<open>Strings\<close>

text \<open>\<open>strings.HasPrefix\<close> is \<open>prefix\<close>; \<open>strings.Count s "/"\<close> counts one byte.\<close>

definition Count :: "string \<Rightarrow> char \<Rightarrow> int" where
  "Count s c = int (length (filter (\<lambda>x. x = c) s))"

definition TrimPrefix :: "string \<Rightarrow> string \<Rightarrow> string" where
  "TrimPrefix s p = (if prefix p s then drop (length p) s else s)"

definition TrimSuffix :: "string \<Rightarrow> string \<Rightarrow> string" where
  "TrimSuffix s p = (if suffix p s then take (length s - length p) s else s)"

text \<open>\<open>strings.Split s sep\<close> for a separator of one byte; the result is never empty.\<close>

fun Split :: "string \<Rightarrow> char \<Rightarrow> string list" where
  "Split [] c = [[]]"
| "Split (x # xs) c =
     (if x = c then [] # Split xs c
      else (case Split xs c of [] \<Rightarrow> [[x]] | y # ys \<Rightarrow> (x # y) # ys))"

text \<open>Go's \<open>%\<close> on \<open>int\<close> truncates towards zero.\<close>

definition go_rem :: "int \<Rightarrow> int \<Rightarrow> int" where
  "go_rem a b = sgn a * (\<bar>a\<bar> mod \<bar>b\<bar>)"

text \<open>\<open>xs[i]\<close> on a slice: a panic out of range.\<close>

definition index :: "'a list \<Rightarrow> int \<Rightarrow> panic + 'a" where
  "index xs i = (if 0 \<le> i \<and> i < int (length xs) then Inr (xs ! nat i) else Inl IndexOutOfRange)"

section \<open>Collaborators\<close>

definition GetStorage :: "state \<Rightarrow> ref \<Rightarrow> Storage" where
  "GetStorage s v = storage (heap s v)"

text \<open>
  Modelled from the spec: the \<open>Driver\<close> interface (internal/driver and the drivers are not
  part of the sources at hand), sections 3 and 6. \<open>Init\<close> binds the configuration it is
  given to the driver object, so that \<open>GetStorage\<close> exposes it; a failing \<open>Init\<close> or
  \<open>Drop\<close> returns the error and leaves the object in the state the outside world chose.
  \<open>Drop\<close> releases resources, which the model does not hold.
\<close>

definition drv_Init :: "ext \<Rightarrow> ref \<Rightarrow> Storage \<Rightarrow> state \<Rightarrow> error option \<times> state" where
  "drv_Init x d st s =
     (case InitFault x of
        Some (e, d') \<Rightarrow> (Some e, s\<lparr>heap := (heap s)(d := d')\<rparr>)
      | None \<Rightarrow> (None, s\<lparr>heap := (heap s)(d := (heap s d)\<lparr>storage := st\<rparr>)\<rparr>))"

definition drv_Drop :: "ext \<Rightarrow> ref \<Rightarrow> state \<Rightarrow> error option \<times> state" where
  "drv_Drop x d s =
     (case DropFault x of
        Some (e, d') \<Rightarrow> (Some e, s\<lparr>heap := (heap s)(d := d')\<rparr>)
      | None \<Rightarrow> (None, s))"

text \<open>
  Modelled from the spec: the database handle \<open>db\<close> of package \<open>db\<close> (its declaration and
  the library behind it are not part of the sources at hand), section 6. \<open>Create\<close> assigns
  the id and writes it into the storage it was given; \<open>Save\<close> writes the row of the
  storage's id; \<open>Delete\<close> removes the row; \<open>First\<close> reads the row of the id and fails
  when there is none. Each call may fail for a reason of its own and then changes nothing.
\<close>

definition db_Create :: "ext \<Rightarrow> Storage \<Rightarrow> state \<Rightarrow> error option \<times> Storage \<times> state" where
  "db_Create x st s =
     (case gormCreate x of
        Inl e \<Rightarrow> (Some e, st, s)
      | Inr i \<Rightarrow> (None, st\<lparr>ID := i\<rparr>, s\<lparr>rows := (rows s)(i \<mapsto> st\<lparr>ID := i\<rparr>)\<rparr>))"

definition db_Save :: "ext \<Rightarrow> Storage \<Rightarrow> state \<Rightarrow> error option \<times> state" where
  "db_Save x st s =
     (case gormSave x of
        Some e \<Rightarrow> (Some e, s)
      | None \<Rightarrow> (None, s\<lparr>rows := (rows s)(ID st \<mapsto> st)\<rparr>))"

definition db_Delete :: "ext \<Rightarrow> nat \<Rightarrow> state \<Rightarrow> error option \<times> state" where
  "db_Delete x i s =
     (case gormDelete x of
        Some e \<Rightarrow> (Some e, s)
      | None \<Rightarrow> (None, s\<lparr>rows := (rows s)(i := None)\<rparr>))"

definition db_First :: "ext \<Rightarrow> nat \<Rightarrow> state \<Rightarrow> error + Storage" where
  "db_First x i s =
     (case gormFirst x of
        Some e \<Rightarrow> Inl e
      | None \<Rightarrow> (case rows s i of None \<Rightarrow> Inl (Cause ''record not found'') | Some st \<Rightarrow> Inr st))"

section \<open>Package db\<close>

text \<open>\<open>errors.WithStack\<close> of \<open>nil\<close> is \<open>nil\<close>.\<close>

definition db_CreateStorage :: "ext \<Rightarrow> Storage \<Rightarrow> state \<Rightarrow> error option \<times> Storage \<times> state" where
  "db_CreateStorage x st s =
     (case db_Create x st s of (err, st', s') \<Rightarrow> (map_option WithStack err, st', s'))"

definition db_UpdateStorage :: "ext \<Rightarrow> Storage \<Rightarrow> state \<Rightarrow> error option \<times> state" where
  "db_UpdateStorage x st s =
     (case db_Save x st s of (err, s') \<Rightarrow> (map_option WithStack err, s'))"

definition db_DeleteStorageById :: "ext \<Rightarrow> nat \<Rightarrow> state \<Rightarrow> error option \<times> state" where
  "db_DeleteStorageById x i s =
     (case db_Delete x i s of (err, s') \<Rightarrow> (map_option WithStack err, s'))"

definition db_GetStorageById :: "ext \<Rightarrow> nat \<Rightarrow> state \<Rightarrow> error + Storage" where
  "db_GetStorageById x i s =
     (case db_First x i s of Inl err \<Rightarrow> Inl (WithStack err) | Inr st \<Rightarrow> Inr st)"

section \<open>Package operations: lifecycle\<close>

definition GetStorageByVirtualPath :: "state \<Rightarrow> string \<Rightarrow> error + ref" where
  "GetStorageByVirtualPath s virtualPath =
     (case Load (storagesMap s) virtualPath of
        None \<Rightarrow> Inl (Errorf (''no virtual path for an storage is: '' @ virtualPath))
      | Some storageDriver \<Rightarrow> Inr storageDriver)"

definition CreateStorage :: "utils \<Rightarrow> ext \<Rightarrow> Storage \<Rightarrow> state \<Rightarrow> error option \<times> state" where
  "CreateStorage U x storage0 s =
     (let storage1 = storage0\<lparr>Modified := Now x\<rparr>;
          storage2 = storage1\<lparr>MountPath := StandardizePath U (MountPath storage1)\<rparr>;
          driverName = Driver storage2
      in (case GetDriverNew x driverName of
            Inl err \<Rightarrow> (Some (WithMessage err ''failed get driver new''), s)
          | Inr driverNew \<Rightarrow>
              (let storageDriver = nextRef s;
                   s1 = s\<lparr>heap := (heap s)(storageDriver := driverNew),
                          nextRef := Suc (nextRef s)\<rparr>
               in (case db_CreateStorage x storage2 s1 of
                     (Some err, storage3, s2) \<Rightarrow>
                       (Some (WithMessage err ''failed create storage in database''), s2)
                   | (None, storage3, s2) \<Rightarrow>
                       (case drv_Init x storageDriver storage3 s2 of
                          (Some err, s3) \<Rightarrow>
                            (Some (WithMessage err
                               ''failed init storage but storage is already created''), s3)
                        | (None, s3) \<Rightarrow>
                            (None, s3\<lparr>storagesMap :=
                               Store (storagesMap s3) (MountPath storage3) storageDriver\<rparr>))))))"

definition UpdateStorage :: "utils \<Rightarrow> ext \<Rightarrow> Storage \<Rightarrow> state \<Rightarrow> error option \<times> state" where
  "UpdateStorage U x storage0 s =
     (case db_GetStorageById x (ID storage0) s of
        Inl err \<Rightarrow> (Some (WithMessage err ''failed get old storage''), s)
      | Inr oldStorage \<Rightarrow>
          (if Driver oldStorage \<noteq> Driver storage0
           then (Some (Errorf ''driver cannot be changed''), s)
           else
             (let storage1 = storage0\<lparr>Modified := Now x\<rparr>;
                  storage2 = storage1\<lparr>MountPath := StandardizePath U (MountPath storage1)\<rparr>
              in (case db_UpdateStorage x storage2 s of
                    (Some err, s1) \<Rightarrow>
                      (Some (WithMessage err ''failed update storage in database''), s1)
                  | (None, s1) \<Rightarrow>
                      (let found = GetStorageByVirtualPath s1 (MountPath oldStorage);
                           s2 = (if MountPath oldStorage \<noteq> MountPath storage2
                                 then s1\<lparr>storagesMap :=
                                        Delete (storagesMap s1) (MountPath oldStorage)\<rparr>
                                 else s1)
                       in (case found of
                             Inl err \<Rightarrow>
                               (Some (WithMessage err ''failed get storage driver''), s2)
                           | Inr storageDriver \<Rightarrow>
                               (case drv_Drop x storageDriver s2 of
                                  (Some err, s3) \<Rightarrow>
                                    (Some (WithMessage err ''failed drop storage''), s3)
                                | (None, s3) \<Rightarrow>
                                    (case drv_Init x storageDriver storage2 s3 of
                                       (Some err, s4) \<Rightarrow>
                                         (Some (WithMessage err ''failed init storage''), s4)
                                     | (None, s4) \<Rightarrow>
                                         (None, s4\<lparr>storagesMap :=
                                            Store (storagesMap s4) (MountPath storage2)
                                              storageDriver\<rparr>)))))))))"

definition DeleteStorageById :: "ext \<Rightarrow> nat \<Rightarrow> state \<Rightarrow> error option \<times> state" where
  "DeleteStorageById x i s =
     (case db_GetStorageById x i s of
        Inl err \<Rightarrow> (Some (WithMessage err ''failed get storage''), s)
      | Inr st \<Rightarrow>
          (case GetStorageByVirtualPath s (MountPath st) of
             Inl err \<Rightarrow> (Some (WithMessage err ''failed get storage driver''), s)
           | Inr storageDriver \<Rightarrow>
               (case drv_Drop x storageDriver s of
                  (Some err, s1) \<Rightarrow> (Some (WithMessage err ''failed drop storage''), s1)
                | (None, s1) \<Rightarrow>
                    (case db_DeleteStorageById x i s1 of
                       (Some err, s2) \<Rightarrow>
                         (Some (WithMessage err ''failed delete storage in database''), s2)
                     | (None, s2) \<Rightarrow>
                         (None, s2\<lparr>storagesMap :=
                            Delete (storagesMap s2) (MountPath st)\<rparr>)))))"

section \<open>Package operations: routing\<close>

text \<open>
  The body of the \<open>Range\<close> callback of \<open>getStoragesByPath\<close>: the accumulator is the slice
  \<open>storages\<close> with \<open>curSlashCount\<close>.
\<close>

definition visit :: "utils \<Rightarrow> state \<Rightarrow> string \<Rightarrow> string \<times> ref \<Rightarrow> ref list \<times> int \<Rightarrow> ref list \<times> int" where
  "visit U s path kv acc =
     (case kv of (key, val) \<Rightarrow> case acc of (storages, curSlashCount) \<Rightarrow>
        let virtualPath0 = GetActualVirtualPath U (MountPath (GetStorage s val));
            virtualPath = (if virtualPath0 = ''/'' then [] else virtualPath0)
        in if path \<noteq> virtualPath \<and> \<not> prefix (virtualPath @ ''/'') path
           then (storages, curSlashCount)
           else
             let slashCount = Count virtualPath CHR ''/''
             in if slashCount < curSlashCount then (storages, curSlashCount)
                else if slashCount > curSlashCount then ([] @ [val], slashCount)
                else (storages @ [val], curSlashCount))"

text \<open>
  \<open>sort.Slice\<close> is modelled by the insertion sort \<open>sort_key\<close> on the key the comparison
  function orders by. Go's sort is not stable: where two elements have the same key the
  order between them is not promised, and nothing below relies on it.
\<close>

definition getStoragesByPath :: "utils \<Rightarrow> state \<Rightarrow> string \<Rightarrow> ref list" where
  "getStoragesByPath U s path =
     sort_key (\<lambda>v. MountPath (GetStorage s v))
       (fst (fold (visit U s path) (Range (storagesMap s)) ([], 0)))"

text \<open>
  The body of the loop of \<open>GetStorageVirtualFilesByPath\<close>: the accumulator is the slice
  \<open>files\<close> with the set of names already emitted.
\<close>

definition vfStep :: "utils \<Rightarrow> state \<Rightarrow> string \<Rightarrow> ref \<Rightarrow> Object list \<times> string set \<Rightarrow> Object list \<times> string set" where
  "vfStep U s pre v acc =
     (case acc of (files, seen) \<Rightarrow>
        if IsBalance U (MountPath (GetStorage s v)) then (files, seen)
        else
          let virtualPath = MountPath (GetStorage s v)
          in if length virtualPath \<le> length pre then (files, seen)
             else if \<not> prefix pre virtualPath then (files, seen)
             else
               let name = Split (TrimPrefix virtualPath pre) CHR ''/'' ! 0
               in if name \<in> seen then (files, seen)
                  else (files @ [\<lparr>Name = name, Size = 0,
                                   Modified_obj = Modified (GetStorage s v),
                                   IsFolder = True\<rparr>],
                        insert name seen))"

definition GetStorageVirtualFilesByPath :: "utils \<Rightarrow> state \<Rightarrow> string \<Rightarrow> Object list" where
  "GetStorageVirtualFilesByPath U s prefix0 =
     (let storages = sort_key (\<lambda>v. (Index (GetStorage s v), MountPath (GetStorage s v)))
                       (Values (storagesMap s));
          prefix1 = StandardizePath U prefix0;
          prefix2 = (if prefix1 \<noteq> ''/'' then prefix1 @ ''/'' else prefix1)
      in fst (fold (vfStep U s prefix2) storages ([], {})))"

definition GetBalancedStorage :: "utils \<Rightarrow> string \<Rightarrow> state \<Rightarrow> (panic + ref option) \<times> state" where
  "GetBalancedStorage U path0 s =
     (let path = StandardizePath U path0;
          storages = getStoragesByPath U s path;
          storageNum = int (length storages)
      in if storageNum = 0 then (Inr None, s)
         else if storageNum = 1 then (map_sum id Some (index storages 0), s)
         else
           let virtualPath = GetActualVirtualPath U (MountPath (GetStorage s (storages ! 0)))
           in case Load (balanceMap s) virtualPath of
                Some cur \<Rightarrow>
                  let i = go_rem (cur + 1) storageNum
                  in (map_sum id Some (index storages i),
                      s\<lparr>balanceMap := Store (balanceMap s) virtualPath i\<rparr>)
              | None \<Rightarrow>
                  let i = 0
                  in (map_sum id Some (index storages i),
                      s\<lparr>balanceMap := Store (balanceMap s) virtualPath i\<rparr>))"

section \<open>The properties, in the words of the specification\<close>

text \<open>
  Section 4.2: the actual virtual path of a registered driver is its mount path with the
  balance suffix stripped, the root counting as the empty prefix; a driver is a candidate
  for a path that equals its actual virtual path or continues it behind a slash; its depth
  is the number of slashes of its actual virtual path. \<open>spec_ResolveByPath\<close> is the set
  of the candidates of greatest depth.
\<close>

definition spec_actualVirtualPath :: "utils \<Rightarrow> state \<Rightarrow> ref \<Rightarrow> string" where
  "spec_actualVirtualPath U s v =
     (let p = GetActualVirtualPath U (MountPath (GetStorage s v)) in if p = ''/'' then [] else p)"

definition spec_candidate :: "utils \<Rightarrow> state \<Rightarrow> string \<Rightarrow> ref \<Rightarrow> bool" where
  "spec_candidate U s path v \<longleftrightarrow>
     path = spec_actualVirtualPath U s v \<or> prefix (spec_actualVirtualPath U s v @ ''/'') path"

definition spec_depth :: "utils \<Rightarrow> state \<Rightarrow> ref \<Rightarrow> int" where
  "spec_depth U s v = Count (spec_actualVirtualPath U s v) CHR ''/''"

definition spec_ResolveByPath :: "utils \<Rightarrow> state \<Rightarrow> string \<Rightarrow> ref set" where
  "spec_ResolveByPath U s path =
     {v \<in> set (Values (storagesMap s)). spec_candidate U s path v \<and>
        (\<forall>w \<in> set (Values (storagesMap s)).
           spec_candidate U s path w \<longrightarrow> spec_depth U s w \<le> spec_depth U s v)}"

text \<open>
  Section 4.3: the balance group of a path is what the resolver returns for the normalised
  path; its cursor is kept under the actual virtual path of the first member.
  \<open>spec_nextIndex\<close> is the index the balancer is to use; \<open>consecutive\<close> runs the
  balancer \<open>n\<close> times in a row with nothing in between; \<open>cursors_nonneg\<close> says that no
  stored cursor is negative.
\<close>

definition balanceGroup :: "utils \<Rightarrow> state \<Rightarrow> string \<Rightarrow> ref list" where
  "balanceGroup U s path = getStoragesByPath U s (StandardizePath U path)"

definition cursorKey :: "utils \<Rightarrow> state \<Rightarrow> string \<Rightarrow> string" where
  "cursorKey U s path =
     GetActualVirtualPath U (MountPath (GetStorage s (balanceGroup U s path ! 0)))"


fun consecutive :: "utils \<Rightarrow> string \<Rightarrow> nat \<Rightarrow> state \<Rightarrow> (panic + ref option) list \<times> state" where
  "consecutive U path 0 s = ([], s)"
| "consecutive U path (Suc n) s =
     (case GetBalancedStorage U path s of (r, s') \<Rightarrow>
        case consecutive U path n s' of (rs, s'') \<Rightarrow> (r # rs, s''))"

definition cursors_nonneg :: "(string, int) MapOf \<Rightarrow> bool" where
  "cursors_nonneg m \<longleftrightarrow> (\<forall>kc \<in> set m. 0 \<le> snd kc)"

text \<open>
  Section 4.4: the prefix the synthesizer matches against; a mount path contributes a
  child when it is no balance member, is strictly longer than the prefix and begins with
  it; the child's name is the first path segment behind the prefix. The winner for a
  name is a contributing driver that no other contributing driver of the same name
  precedes in the order by \<open>Index\<close>, then \<open>MountPath\<close>.
\<close>

definition spec_listPrefix :: "utils \<Rightarrow> string \<Rightarrow> string" where
  "spec_listPrefix U p =
     (if StandardizePath U p \<noteq> ''/'' then StandardizePath U p @ ''/'' else StandardizePath U p)"

definition spec_contributes :: "utils \<Rightarrow> string \<Rightarrow> string \<Rightarrow> bool" where
  "spec_contributes U pre mp \<longleftrightarrow> \<not> IsBalance U mp \<and> length pre < length mp \<and> prefix pre mp"

definition spec_childName :: "string \<Rightarrow> string \<Rightarrow> string" where
  "spec_childName pre mp = takeWhile (\<lambda>c. c \<noteq> CHR ''/'') (drop (length pre) mp)"

definition spec_key :: "state \<Rightarrow> ref \<Rightarrow> int \<times> string" where
  "spec_key s v = (Index (GetStorage s v), MountPath (GetStorage s v))"

definition spec_winner :: "utils \<Rightarrow> state \<Rightarrow> string \<Rightarrow> ref \<Rightarrow> bool" where
  "spec_winner U s pre v \<longleftrightarrow>
     spec_contributes U pre (MountPath (GetStorage s v)) \<and>
     (\<forall>w \<in> set (Values (storagesMap s)).
        spec_contributes U pre (MountPath (GetStorage s w)) \<and>
        spec_childName pre (MountPath (GetStorage s w)) =
          spec_childName pre (MountPath (GetStorage s v)) \<longrightarrow>
        spec_key s v \<le> spec_key s w)"

text \<open>The entry the synthesizer is to emit for a driver.\<close>

definition mkObject :: "state \<Rightarrow> string \<Rightarrow> ref \<Rightarrow> Object" where
  "mkObject s pre v =
     \<lparr>Name = spec_childName pre (MountPath (GetStorage s v)), Size = 0,
      Modified_obj = Modified (GetStorage s v), IsFolder = True\<rparr>"

text \<open>Short forms: the child name a driver stands for, and whether it contributes.\<close>

abbreviation (input) cn :: "state \<Rightarrow> string \<Rightarrow> ref \<Rightarrow> string" where
  "cn s pre v \<equiv> spec_childName pre (MountPath (GetStorage s v))"

abbreviation (input) ct :: "utils \<Rightarrow> state \<Rightarrow> string \<Rightarrow> ref \<Rightarrow> bool" where
  "ct U s pre v \<equiv> spec_contributes U pre (MountPath (GetStorage s v))"

text \<open>
  The four ways \<open>DeleteStorageById\<close> can fail: the row cannot be loaded, the registry has
  no entry for the row's mount path, \<open>Drop\<close> fails, the deletion of the row fails.
\<close>

definition spec_delete_fails :: "ext \<Rightarrow> nat \<Rightarrow> state \<Rightarrow> bool" where
  "spec_delete_fails x i s \<longleftrightarrow>
     (case db_GetStorageById x i s of
        Inl e \<Rightarrow> True
      | Inr st \<Rightarrow> Load (storagesMap s) (MountPath st) = None)
     \<or> DropFault x \<noteq> None \<or> gormDelete x \<noteq> None"

section \<open>The helpers of the specification, and an example\<close>

text \<open>
  Modelled from the spec: the three helpers of \<open>pkg/utils\<close>, which are not part of the
  sources at hand. Section 3: a mount path is normalised by stripping the trailing slash,
  except for the root; the members of a balance group carry the suffix marker
  \<open>.balance\<close> (\<open>.balance\<close>, \<open>.balance2\<close>, ...), and the actual virtual path is the
  mount path with the marker and what follows it stripped. \<open>cutLast m s\<close> is \<open>s\<close> up to
  the last occurrence of \<open>m\<close>, if there is one.
\<close>

fun cutLast :: "string \<Rightarrow> string \<Rightarrow> string option" where
  "cutLast m [] = (if m = [] then Some [] else None)"
| "cutLast m (c # cs) =
     (case cutLast m cs of
        Some r \<Rightarrow> Some (c # r)
      | None \<Rightarrow> if prefix m (c # cs) then Some [] else None)"

definition spec_StandardizePath :: "string \<Rightarrow> string" where
  "spec_StandardizePath p = (if p = ''/'' then p else TrimSuffix p ''/'')"

definition spec_GetActualVirtualPath :: "string \<Rightarrow> string" where
  "spec_GetActualVirtualPath p = (case cutLast ''.balance'' p of Some q \<Rightarrow> q | None \<Rightarrow> p)"

definition spec_IsBalance :: "string \<Rightarrow> bool" where
  "spec_IsBalance p \<longleftrightarrow> cutLast ''.balance'' p \<noteq> None"

definition spec_utils :: utils where
  "spec_utils = \<lparr>StandardizePath = spec_StandardizePath,
                  GetActualVirtualPath = spec_GetActualVirtualPath,
                  IsBalance = spec_IsBalance\<rparr>"

text \<open>
  The example of the comment above \<open>GetStorageVirtualFilesByPath\<close>: the mounts
  \<open>/a/b\<close>, \<open>/a/c\<close>, \<open>/a/d/e\<close>, \<open>/a/b.balance1\<close> and \<open>/av\<close>.
\<close>

definition mount :: "nat \<Rightarrow> string \<Rightarrow> int \<Rightarrow> nat \<Rightarrow> driver" where
  "mount i p ix t =
     \<lparr>storage = \<lparr>ID = i, MountPath = p, Index = ix, Driver = ''Local'',
                  Addition = [], Modified = t\<rparr>\<rparr>"

definition example_heap :: "ref \<Rightarrow> driver" where
  "example_heap r =
     (if r = 0 then mount 1 ''/a/b'' 0 10
      else if r = 1 then mount 2 ''/a/c'' 0 20
      else if r = 2 then mount 3 ''/a/d/e'' 0 30
      else if r = 3 then mount 4 ''/a/b.balance1'' 0 40
      else mount 5 ''/av'' 0 50)"

definition example_rows :: "nat \<rightharpoonup> Storage" where
  "example_rows i =
     (if 1 \<le> i \<and> i \<le> 5 then Some (storage (example_heap (i - 1))) else None)"

definition example_state :: state where
  "example_state =
     \<lparr>storagesMap = [(''/av'', 4), (''/a/b.balance1'', 3), (''/a/d/e'', 2), (''/a/c'', 1),
                     (''/a/b'', 0)],
      balanceMap = [],
      heap = example_heap,
      nextRef = 5,
      rows = example_rows\<rparr>"

definition example_ext :: ext where
  "example_ext =
     \<lparr>Now = 99,
      GetDriverNew = (\<lambda>name. if name = ''Local'' then Inr (mount 0 [] 0 0)
                              else Inl (Errorf (''no driver named: '' @ name))),
      gormCreate = Inr 6,
      gormFirst = None,
      gormSave = None,
      gormDelete = None,
      DropFault = None,
      InitFault = None\<rparr>"


text \<open>
  Requests for the lifecycle operations on the example: a new storage, the storage of
  \<open>/a/b\<close> moved to \<open>/x/y\<close>, the same storage with another driver type, and a world in
  which \<open>Drop\<close> fails.
\<close>

definition example_new :: Storage where
  "example_new = \<lparr>ID = 0, MountPath = ''/new/'', Index = 7, Driver = ''Local'',
                   Addition = [], Modified = 0\<rparr>"

definition example_rename :: Storage where
  "example_rename = (storage (example_heap 0))\<lparr>MountPath := ''/x/y/''\<rparr>"

definition example_other_driver :: Storage where
  "example_other_driver = (storage (example_heap 0))\<lparr>Driver := ''S3''\<rparr>"

definition example_ext_drop_fails :: ext where
  "example_ext_drop_fails = example_ext\<lparr>DropFault := Some (Cause ''timeout'', example_heap 0)\<rparr>"

section \<open>The resolver\<close>

lemma visit_alt:
  "visit U s path (k, v) (st, cur) =
     (if \<not> spec_candidate U s path v then (st, cur)
      else if spec_depth U s v < cur then (st, cur)
      else if cur < spec_depth U s v then ([v], spec_depth U s v)
      else (st @ [v], cur))"
  by (simp add: visit_def spec_candidate_def spec_depth_def spec_actualVirtualPath_def Let_def)

lemma spec_depth_nonneg: "0 \<le> spec_depth U s v"
  by (simp add: spec_depth_def Count_def)

lemma fold_visit_max:
  "fold (visit U s path) xs (st, cur) = (st', cur') \<Longrightarrow>
   cur \<le> cur' \<and>
   (\<forall>v \<in> set (map snd xs). spec_candidate U s path v \<longrightarrow> spec_depth U s v \<le> cur') \<and>
   (cur' = cur \<or> (\<exists>w \<in> set (map snd xs). spec_candidate U s path w \<and> spec_depth U s w = cur'))"
proof (induction xs arbitrary: st cur)
  case Nil
  then show ?case by simp
next
  case (Cons kv xs)
  obtain k v where kv: "kv = (k, v)" by (cases kv)
  let ?c = "spec_candidate U s path v" and ?d = "spec_depth U s v"
  consider (skip) "\<not> ?c \<or> ?d < cur" | (deeper) "?c" "cur < ?d" | (same) "?c" "?d = cur"
    by fastforce
  then show ?case
  proof cases
    case skip
    then have "fold (visit U s path) xs (st, cur) = (st', cur')"
      using Cons.prems kv by (auto simp: visit_alt split: if_splits)
    from Cons.IH [OF this] skip show ?thesis by (auto simp: kv)
  next
    case deeper
    then have "fold (visit U s path) xs ([v], ?d) = (st', cur')"
      using Cons.prems kv by (simp add: visit_alt)
    from Cons.IH [OF this] deeper show ?thesis by (auto simp: kv)
  next
    case same
    then have "fold (visit U s path) xs (st @ [v], cur) = (st', cur')"
      using Cons.prems kv by (simp add: visit_alt)
    from Cons.IH [OF this] same show ?thesis by (auto simp: kv)
  qed
qed

lemma fold_visit_list:
  "\<forall>v \<in> set st. spec_depth U s v = cur \<Longrightarrow>
   fold (visit U s path) xs (st, cur) = (st', cur') \<Longrightarrow>
   st' = filter (\<lambda>v. spec_depth U s v = cur')
           (st @ filter (spec_candidate U s path) (map snd xs))"
proof (induction xs arbitrary: st cur)
  case Nil
  then show ?case by (simp add: filter_id_conv)
next
  case (Cons kv xs)
  obtain k v where kv: "kv = (k, v)" by (cases kv)
  let ?c = "spec_candidate U s path v" and ?d = "spec_depth U s v"
  consider (nocand) "\<not> ?c" | (shallow) "?c" "?d < cur" | (deeper) "?c" "cur < ?d"
    | (same) "?c" "?d = cur"
    by fastforce
  then show ?case
  proof cases
    case nocand
    then have f: "fold (visit U s path) xs (st, cur) = (st', cur')"
      using Cons.prems(2) kv by (simp add: visit_alt)
    from Cons.IH [OF Cons.prems(1) f] nocand show ?thesis by (simp add: kv)
  next
    case shallow
    then have f: "fold (visit U s path) xs (st, cur) = (st', cur')"
      using Cons.prems(2) kv by (simp add: visit_alt)
    have "cur \<le> cur'" using fold_visit_max [OF f] by simp
    then have "?d \<noteq> cur'" using shallow by simp
    with Cons.IH [OF Cons.prems(1) f] shallow show ?thesis by (simp add: kv)
  next
    case deeper
    then have f: "fold (visit U s path) xs ([v], ?d) = (st', cur')"
      using Cons.prems(2) kv by (simp add: visit_alt)
    have "?d \<le> cur'" using fold_visit_max [OF f] by simp
    then have "\<forall>w \<in> set st. spec_depth U s w \<noteq> cur'"
      using Cons.prems(1) deeper by auto
    then have e: "filter (\<lambda>v. spec_depth U s v = cur') st = []"
      by (simp add: filter_empty_conv)
    have "\<forall>w \<in> set [v]. spec_depth U s w = ?d" by simp
    from Cons.IH [OF this f] deeper e show ?thesis by (simp add: kv)
  next
    case same
    then have f: "fold (visit U s path) xs (st @ [v], cur) = (st', cur')"
      using Cons.prems(2) kv by (simp add: visit_alt)
    have "\<forall>w \<in> set (st @ [v]). spec_depth U s w = cur"
      using Cons.prems(1) same by simp
    from Cons.IH [OF this f] same show ?thesis by (simp add: kv)
  qed
qed

lemma fold_visit_result:
  assumes f: "fold (visit U s path) (Range (storagesMap s)) ([], 0) = (st', cur')"
  shows "st' = filter (\<lambda>v. spec_depth U s v = cur')
                 (filter (spec_candidate U s path) (Values (storagesMap s)))"
    and "\<forall>v \<in> set (Values (storagesMap s)). spec_candidate U s path v \<longrightarrow> spec_depth U s v \<le> cur'"
    and "cur' = 0 \<or> (\<exists>w \<in> set (Values (storagesMap s)). spec_candidate U s path w \<and> spec_depth U s w = cur')"
proof -
  have "\<forall>v \<in> set ([]::ref list). spec_depth U s v = 0" by simp
  from fold_visit_list [OF this f] show "st' = filter (\<lambda>v. spec_depth U s v = cur')
                 (filter (spec_candidate U s path) (Values (storagesMap s)))"
    by (simp add: Range_def Values_def)
  from fold_visit_max [OF f] show "\<forall>v \<in> set (Values (storagesMap s)). spec_candidate U s path v \<longrightarrow> spec_depth U s v \<le> cur'"
    by (simp add: Range_def Values_def)
  from fold_visit_max [OF f] show "cur' = 0 \<or> (\<exists>w \<in> set (Values (storagesMap s)). spec_candidate U s path w \<and> spec_depth U s w = cur')"
    by (simp add: Range_def Values_def)
qed

lemma fold_visit_set:
  "set (fst (fold (visit U s path) (Range (storagesMap s)) ([], 0))) = spec_ResolveByPath U s path"
proof -
  obtain st' cur' where f: "fold (visit U s path) (Range (storagesMap s)) ([], 0) = (st', cur')"
    by (cases "fold (visit U s path) (Range (storagesMap s)) ([], 0)")
  note R = fold_visit_result [OF f]
  let ?V = "set (Values (storagesMap s))"
  have "v \<in> set st' \<longleftrightarrow> v \<in> spec_ResolveByPath U s path" for v
  proof
    assume "v \<in> set st'"
    then have "v \<in> ?V" "spec_candidate U s path v" "spec_depth U s v = cur'"
      using R(1) by auto
    then show "v \<in> spec_ResolveByPath U s path"
      using R(2) by (simp add: spec_ResolveByPath_def)
  next
    assume "v \<in> spec_ResolveByPath U s path"
    then have v: "v \<in> ?V" "spec_candidate U s path v"
      and mx: "\<forall>w \<in> ?V. spec_candidate U s path w \<longrightarrow> spec_depth U s w \<le> spec_depth U s v"
      by (simp_all add: spec_ResolveByPath_def)
    have le: "spec_depth U s v \<le> cur'" using R(2) v by simp
    have "cur' \<le> spec_depth U s v"
      using R(3) mx spec_depth_nonneg [of U s v] by auto
    with le have "spec_depth U s v = cur'" by simp
    then show "v \<in> set st'" using R(1) v by simp
  qed
  then show ?thesis using f by auto
qed

lemma getStoragesByPath_set:
  "set (getStoragesByPath U s path) = spec_ResolveByPath U s path"
  by (simp add: getStoragesByPath_def fold_visit_set)

text \<open>
  C1. For every registry, heap and path, the drivers \<open>getStoragesByPath\<close> returns are
  exactly the registered drivers that are candidates for the path (the path equals the
  actual virtual path, or begins with it followed by a slash, the root counting as the
  empty prefix) and whose actual virtual path has the greatest number of slashes among
  the candidates.
\<close>

theorem getStoragesByPath_deepest_match:
  "set (getStoragesByPath U s path) =
     {v \<in> set (Values (storagesMap s)). spec_candidate U s path v \<and>
        (\<forall>w \<in> set (Values (storagesMap s)).
           spec_candidate U s path w \<longrightarrow> spec_depth U s w \<le> spec_depth U s v)}"
  using getStoragesByPath_set [of U s path] by (simp add: spec_ResolveByPath_def)

lemma example_resolve:
  "getStoragesByPath spec_utils example_state ''/a/b/c'' = [0, 3]"
  by code_simp

theorem getStoragesByPath_deepest_match_witness:
  "{v \<in> set (Values (storagesMap example_state)).
      spec_candidate spec_utils example_state ''/a/b/c'' v \<and>
      (\<forall>w \<in> set (Values (storagesMap example_state)).
         spec_candidate spec_utils example_state ''/a/b/c'' w \<longrightarrow>
         spec_depth spec_utils example_state w \<le> spec_depth spec_utils example_state v)}
   = {0, 3}"
  using getStoragesByPath_deepest_match [of spec_utils example_state "''/a/b/c''"]
  by (simp add: example_resolve)

lemma GetStorage_storagesMap_update [simp]:
  "GetStorage (s\<lparr>storagesMap := m\<rparr>) v = GetStorage s v"
  by (simp add: GetStorage_def)

lemma spec_candidate_storagesMap_update [simp]:
  "spec_candidate U (s\<lparr>storagesMap := m\<rparr>) path v = spec_candidate U s path v"
  by (simp add: spec_candidate_def spec_actualVirtualPath_def)

lemma spec_depth_storagesMap_update [simp]:
  "spec_depth U (s\<lparr>storagesMap := m\<rparr>) v = spec_depth U s v"
  by (simp add: spec_depth_def spec_actualVirtualPath_def)


lemma getStoragesByPath_subset:
  "set (getStoragesByPath U s path) \<subseteq> set (Values (storagesMap s))"
  by (auto simp: getStoragesByPath_set spec_ResolveByPath_def)





lemma example_mount_paths:
  "map (\<lambda>v. MountPath (GetStorage example_state v)) (Values (storagesMap example_state)) =
     [''/av'', ''/a/b.balance1'', ''/a/d/e'', ''/a/c'', ''/a/b'']"
  by code_simp


section \<open>The balancer\<close>

lemma Load_Store: "Load (Store m k v) k' = (if k' = k then Some v else Load m k')"
  by (simp add: Load_def Store_def update_conv')

lemma Load_Delete: "Load (Delete m k) k' = (if k' = k then None else Load m k')"
  by (simp add: Load_def Delete_def delete_conv')

lemma GetStorage_balanceMap_update [simp]:
  "GetStorage (s\<lparr>balanceMap := b\<rparr>) v = GetStorage s v"
  by (simp add: GetStorage_def)

lemma visit_balanceMap_update [simp]:
  "visit U (s\<lparr>balanceMap := b\<rparr>) path = visit U s path"
  by (rule ext, rule ext) (simp add: visit_def)

lemma getStoragesByPath_balanceMap_update [simp]:
  "getStoragesByPath U (s\<lparr>balanceMap := b\<rparr>) path = getStoragesByPath U s path"
  by (simp add: getStoragesByPath_def)

lemma balanceGroup_balanceMap_update [simp]:
  "balanceGroup U (s\<lparr>balanceMap := b\<rparr>) path = balanceGroup U s path"
  by (simp add: balanceGroup_def)

lemma cursorKey_balanceMap_update [simp]:
  "cursorKey U (s\<lparr>balanceMap := b\<rparr>) path = cursorKey U s path"
  by (simp add: cursorKey_def)

lemma go_rem_nonneg: "0 \<le> a \<Longrightarrow> 0 < b \<Longrightarrow> go_rem a b = a mod b"
  by (cases "a = 0") (simp_all add: go_rem_def)

lemma GetBalancedStorage_first:
  assumes "2 \<le> length (balanceGroup U s path)"
    and "Load (balanceMap s) (cursorKey U s path) = None"
  shows "GetBalancedStorage U path s =
           (Inr (Some (balanceGroup U s path ! 0)),
            s\<lparr>balanceMap := Store (balanceMap s) (cursorKey U s path) 0\<rparr>)"
proof -
  have "balanceGroup U s path \<noteq> []" using assms(1) by (cases "balanceGroup U s path") simp_all
  then show ?thesis
    using assms
    by (simp add: GetBalancedStorage_def Let_def index_def
          balanceGroup_def [symmetric] cursorKey_def [symmetric])
qed

lemma GetBalancedStorage_next:
  assumes "2 \<le> length (balanceGroup U s path)"
    and "Load (balanceMap s) (cursorKey U s path) = Some c" and "0 \<le> c"
  shows "GetBalancedStorage U path s =
           (Inr (Some (balanceGroup U s path ! (nat (c + 1) mod length (balanceGroup U s path)))),
            s\<lparr>balanceMap := Store (balanceMap s) (cursorKey U s path)
                 (int (nat (c + 1) mod length (balanceGroup U s path)))\<rparr>)"
proof -
  let ?g = "balanceGroup U s path"
  let ?N = "int (length ?g)"
  have N: "0 < ?N" "?N \<noteq> 0" "?N \<noteq> 1" using assms(1) by auto
  have r: "go_rem (c + 1) ?N = (c + 1) mod ?N"
    using assms(3) N by (simp add: go_rem_nonneg)
  have e: "(c + 1) mod ?N = int (nat (c + 1) mod length ?g)"
    using assms(3) by (simp add: zmod_int)
  have i: "index ?g (int (nat (c + 1) mod length ?g)) = Inr (?g ! (nat (c + 1) mod length ?g))"
  proof -
    have "0 < length ?g" using assms(1) by (cases ?g) simp_all
    then have "nat (c + 1) mod length ?g < length ?g" by (rule mod_less_divisor)
    then show ?thesis by (simp add: index_def)
  qed
  show ?thesis
    using assms(2) N i
    by (simp add: GetBalancedStorage_def Let_def r e
          balanceGroup_def [symmetric] cursorKey_def [symmetric])
qed


lemma upt_0_Suc_map: "[0..<Suc n] = 0 # map Suc [0..<n]"
  by (simp add: upt_conv_Cons map_Suc_upt del: upt_Suc)

lemma consecutive_from_cursor:
  "2 \<le> length (balanceGroup U s path) \<Longrightarrow>
   Load (balanceMap s) (cursorKey U s path) = Some (int k) \<Longrightarrow>
   fst (consecutive U path n s) =
     map (\<lambda>j. Inr (Some (balanceGroup U s path ! ((k + 1 + j) mod length (balanceGroup U s path)))))
       [0..<n]"
proof (induction n arbitrary: s k)
  case 0
  then show ?case by simp
next
  case (Suc n)
  let ?g = "balanceGroup U s path" and ?key = "cursorKey U s path"
  let ?k' = "nat (int k + 1) mod length ?g"
  let ?s' = "s\<lparr>balanceMap := Store (balanceMap s) ?key (int ?k')\<rparr>"
  have step: "GetBalancedStorage U path s = (Inr (Some (?g ! ?k')), ?s')"
    using GetBalancedStorage_next [OF Suc.prems(1) Suc.prems(2)] by simp
  have g': "2 \<le> length (balanceGroup U ?s' path)" using Suc.prems(1) by simp
  have c': "Load (balanceMap ?s') (cursorKey U ?s' path) = Some (int ?k')"
    by (simp add: Load_Store)
  have k': "?k' = (k + 1) mod length ?g" by (simp add: nat_add_distrib)
  have idx: "Suc (Suc k mod length ?g + j) mod length ?g = Suc (Suc (k + j)) mod length ?g" for j
  proof -
    have "Suc (Suc k mod length ?g + j) mod length ?g = Suc (Suc k + j) mod length ?g"
      by (metis mod_Suc_eq mod_add_left_eq)
    then show ?thesis by simp
  qed
  have "fst (consecutive U path (Suc n) s) = Inr (Some (?g ! ?k')) # fst (consecutive U path n ?s')"
    by (simp add: step split: prod.splits)
  also have "fst (consecutive U path n ?s') =
      map (\<lambda>j. Inr (Some (?g ! ((?k' + 1 + j) mod length ?g)))) [0..<n]"
    using Suc.IH [OF g' c'] by simp
  also have "Inr (Some (?g ! ?k')) # map (\<lambda>j. Inr (Some (?g ! ((?k' + 1 + j) mod length ?g)))) [0..<n]
     = map (\<lambda>j. Inr (Some (?g ! ((k + 1 + j) mod length ?g)))) [0..<Suc n]"
    unfolding upt_0_Suc_map by (simp add: idx k' comp_def)
  finally show ?case .
qed


lemma set_update_subset: "set (AList.update k v m) \<subseteq> insert (k, v) (set m)"
  by (induction m) auto

lemma cursors_nonneg_Store: "cursors_nonneg m \<Longrightarrow> 0 \<le> c \<Longrightarrow> cursors_nonneg (Store m k c)"
  using set_update_subset [of k c m] by (auto simp: cursors_nonneg_def Store_def)

lemma cursors_nonneg_Load: "cursors_nonneg m \<Longrightarrow> Load m k = Some c \<Longrightarrow> 0 \<le> c"
  by (auto simp: cursors_nonneg_def Load_def dest!: map_of_SomeD)

lemma GetBalancedStorage_cursors_nonneg:
  assumes "cursors_nonneg (balanceMap s)"
  shows "cursors_nonneg (balanceMap (snd (GetBalancedStorage U path s)))"
proof (cases "2 \<le> length (balanceGroup U s path)")
  case False
  then have "length (balanceGroup U s path) = 0 \<or> length (balanceGroup U s path) = 1" by linarith
  then show ?thesis
    using assms by (auto simp: GetBalancedStorage_def Let_def balanceGroup_def)
next
  case True
  show ?thesis
  proof (cases "Load (balanceMap s) (cursorKey U s path)")
    case None
    from GetBalancedStorage_first [OF True None] assms show ?thesis
      by (simp add: cursors_nonneg_Store)
  next
    case (Some cur)
    have c: "0 \<le> cur" using cursors_nonneg_Load [OF assms Some] .
    from GetBalancedStorage_next [OF True Some c] assms show ?thesis
      by (simp add: cursors_nonneg_Store)
  qed
qed

text \<open>
  C2, as the code has it. For a balance group of at least two members with no cursor stored
  yet, \<open>n\<close> consecutive calls of \<open>GetBalancedStorage\<close> on the same path, with nothing
  in between, return the members at the indices \<open>0, 1, 2, ...\<close> taken modulo the size of
  the group: the first call returns index 0, the second index 1, the \<open>N\<close>-th index
  \<open>N - 1\<close>, and the \<open>(N+1)\<close>-th wraps back to index 0.
\<close>

theorem GetBalancedStorage_round_robin:
  assumes "2 \<le> length (balanceGroup U s path)"
    and "Load (balanceMap s) (cursorKey U s path) = None"
  shows "fst (consecutive U path n s) =
           map (\<lambda>j. Inr (Some (balanceGroup U s path ! (j mod length (balanceGroup U s path)))))
             [0..<n]"
proof (cases n)
  case 0
  then show ?thesis by simp
next
  case (Suc m)
  let ?g = "balanceGroup U s path" and ?key = "cursorKey U s path"
  let ?s' = "s\<lparr>balanceMap := Store (balanceMap s) ?key 0\<rparr>"
  have step: "GetBalancedStorage U path s = (Inr (Some (?g ! 0)), ?s')"
    using GetBalancedStorage_first [OF assms] .
  have g': "2 \<le> length (balanceGroup U ?s' path)" using assms(1) by simp
  have c': "Load (balanceMap ?s') (cursorKey U ?s' path) = Some (int 0)"
    by (simp add: Load_Store)
  have "fst (consecutive U path (Suc m) s) = Inr (Some (?g ! 0)) # fst (consecutive U path m ?s')"
    by (simp add: step split: prod.splits)
  also have "fst (consecutive U path m ?s') =
      map (\<lambda>j. Inr (Some (?g ! ((0 + 1 + j) mod length ?g)))) [0..<m]"
    using consecutive_from_cursor [OF g' c'] by simp
  also have "Inr (Some (?g ! 0)) # map (\<lambda>j. Inr (Some (?g ! ((0 + 1 + j) mod length ?g)))) [0..<m]
     = map (\<lambda>j. Inr (Some (?g ! (j mod length ?g)))) [0..<Suc m]"
    unfolding upt_0_Suc_map by (simp add: comp_def)
  finally show ?thesis using Suc by simp
qed

lemma example_group: "balanceGroup spec_utils example_state ''/a/b'' = [0, 3]"
  by code_simp

lemma example_key: "cursorKey spec_utils example_state ''/a/b'' = ''/a/b''"
  by code_simp

lemma example_calls: "fst (consecutive spec_utils ''/a/b'' 3 example_state) = [Inr (Some 0), Inr (Some 3), Inr (Some 0)]"
  by code_simp

theorem GetBalancedStorage_round_robin_witness:
  "2 \<le> length (balanceGroup spec_utils example_state ''/a/b'') \<and>
   Load (balanceMap example_state) (cursorKey spec_utils example_state ''/a/b'') = None \<and>
   fst (consecutive spec_utils ''/a/b'' 3 example_state) =
     [Inr (Some 0), Inr (Some 3), Inr (Some 0)]"
proof -
  have g: "2 \<le> length (balanceGroup spec_utils example_state ''/a/b'')" by (simp add: example_group)
  have c: "Load (balanceMap example_state) (cursorKey spec_utils example_state ''/a/b'') = None"
    by (simp add: example_state_def Load_def)
  have e: "map (\<lambda>j. Inr (Some ([0, 3] ! (j mod length [0, 3 :: nat])))) [0..<3] =
      [Inr (Some 0), Inr (Some 3), Inr (Some (0 :: nat)) :: panic + nat option]"
    by code_simp
  from GetBalancedStorage_round_robin [OF g c, of 3] g c show ?thesis
    unfolding example_group e by simp
qed

text \<open>
  C2, as the specification states it, fails: in the example the group of \<open>/a/b\<close> has the
  two members \<open>/a/b\<close> and \<open>/a/b.balance1\<close> and no cursor; the second call does not
  return the member at index 0 again.
\<close>

theorem GetBalancedStorage_second_call_counterexample:
  "length (balanceGroup spec_utils example_state ''/a/b'') = 2 \<and>
   Load (balanceMap example_state) (cursorKey spec_utils example_state ''/a/b'') = None \<and>
   fst (consecutive spec_utils ''/a/b'' 2 example_state) \<noteq>
     [Inr (Some (balanceGroup spec_utils example_state ''/a/b'' ! 0)),
      Inr (Some (balanceGroup spec_utils example_state ''/a/b'' ! 0))]"
proof -
  have "fst (consecutive spec_utils ''/a/b'' 2 example_state) = [Inr (Some 0), Inr (Some 3)]"
    by code_simp
  moreover have "Load (balanceMap example_state) (cursorKey spec_utils example_state ''/a/b'') = None"
    by (simp add: example_state_def Load_def)
  ultimately show ?thesis by (simp add: example_group)
qed





section \<open>The synthesizer of virtual directories\<close>

lemma Split_nonempty: "Split xs c \<noteq> []"
  by (induction xs) (simp_all split: list.splits)

lemma Split_hd: "Split xs c ! 0 = takeWhile (\<lambda>x. x \<noteq> c) xs"
proof (induction xs)
  case Nil
  then show ?case by simp
next
  case (Cons x xs)
  then show ?case
    using Split_nonempty [of xs c] by (cases "Split xs c") simp_all
qed

lemma childName_eq:
  "prefix pre mp \<Longrightarrow> Split (TrimPrefix mp pre) CHR ''/'' ! 0 = spec_childName pre mp"
  by (simp add: Split_hd TrimPrefix_def spec_childName_def)

lemma vfStep_alt:
  "vfStep U s pre v (files, seen) =
     (if spec_contributes U pre (MountPath (GetStorage s v)) \<and>
         spec_childName pre (MountPath (GetStorage s v)) \<notin> seen
      then (files @ [mkObject s pre v],
            insert (spec_childName pre (MountPath (GetStorage s v))) seen)
      else (files, seen))"
  by (auto simp: vfStep_def spec_contributes_def mkObject_def Let_def childName_eq)


lemma fold_vfStep_names:
  "fold (vfStep U s pre) xs (files, seen) = (files', seen') \<Longrightarrow>
   Name ` set files' =
     Name ` set files \<union> {cn s pre v | v. v \<in> set xs \<and> ct U s pre v \<and> cn s pre v \<notin> seen}"
proof (induction xs arbitrary: files seen)
  case Nil
  then show ?case by simp
next
  case (Cons x xs)
  show ?case
  proof (cases "ct U s pre x \<and> cn s pre x \<notin> seen")
    case True
    then have f: "fold (vfStep U s pre) xs (files @ [mkObject s pre x], insert (cn s pre x) seen)
        = (files', seen')"
      using Cons.prems by (simp add: vfStep_alt)
    from Cons.IH [OF f] True show ?thesis by (auto simp: mkObject_def)
  next
    case False
    then have f: "fold (vfStep U s pre) xs (files, seen) = (files', seen')"
      using Cons.prems by (auto simp: vfStep_alt)
    from Cons.IH [OF f] False show ?thesis by auto
  qed
qed

lemma fold_vfStep_distinct:
  "fold (vfStep U s pre) xs (files, seen) = (files', seen') \<Longrightarrow>
   Name ` set files \<subseteq> seen \<Longrightarrow> distinct (map Name files) \<Longrightarrow>
   distinct (map Name files')"
proof (induction xs arbitrary: files seen)
  case Nil
  then show ?case by simp
next
  case (Cons x xs)
  show ?case
  proof (cases "ct U s pre x \<and> cn s pre x \<notin> seen")
    case True
    then have f: "fold (vfStep U s pre) xs (files @ [mkObject s pre x], insert (cn s pre x) seen)
        = (files', seen')"
      using Cons.prems(1) by (simp add: vfStep_alt)
    have a: "Name ` set (files @ [mkObject s pre x]) \<subseteq> insert (cn s pre x) seen"
      using Cons.prems(2) by (auto simp: mkObject_def)
    have b: "distinct (map Name (files @ [mkObject s pre x]))"
      using Cons.prems(2,3) True by (auto simp: mkObject_def)
    from Cons.IH [OF f a b] show ?thesis .
  next
    case False
    then have f: "fold (vfStep U s pre) xs (files, seen) = (files', seen')"
      using Cons.prems(1) by (auto simp: vfStep_alt)
    from Cons.IH [OF f Cons.prems(2,3)] show ?thesis .
  qed
qed


lemma fold_vfStep_first:
  "sorted (map (spec_key s) xs) \<Longrightarrow>
   fold (vfStep U s pre) xs (files, seen) = (files', seen') \<Longrightarrow> obj \<in> set files' \<Longrightarrow>
   obj \<in> set files \<or>
   (\<exists>v \<in> set xs. ct U s pre v \<and> obj = mkObject s pre v \<and> cn s pre v \<notin> seen \<and>
      (\<forall>w \<in> set xs. ct U s pre w \<and> cn s pre w = cn s pre v \<longrightarrow> spec_key s v \<le> spec_key s w))"
proof (induction xs arbitrary: files seen)
  case Nil
  then show ?case by simp
next
  case (Cons x xs)
  have srt: "sorted (map (spec_key s) xs)" and least: "\<forall>w \<in> set xs. spec_key s x \<le> spec_key s w"
    using Cons.prems(1) by simp_all
  show ?case
  proof (cases "ct U s pre x \<and> cn s pre x \<notin> seen")
    case True
    then have f: "fold (vfStep U s pre) xs (files @ [mkObject s pre x], insert (cn s pre x) seen)
        = (files', seen')"
      using Cons.prems(2) by (simp add: vfStep_alt)
    from Cons.IH [OF srt f Cons.prems(3)]
    consider (old) "obj \<in> set files" | (new) "obj = mkObject s pre x"
      | (later) v where "v \<in> set xs" "ct U s pre v" "obj = mkObject s pre v"
          "cn s pre v \<noteq> cn s pre x" "cn s pre v \<notin> seen"
          "\<forall>w \<in> set xs. ct U s pre w \<and> cn s pre w = cn s pre v \<longrightarrow> spec_key s v \<le> spec_key s w"
      by auto
    then show ?thesis
    proof cases
      case old
      then show ?thesis by simp
    next
      case new
      have "\<forall>w \<in> set (x # xs). ct U s pre w \<and> cn s pre w = cn s pre x \<longrightarrow> spec_key s x \<le> spec_key s w"
        using least by simp
      with new True have "\<exists>v \<in> set (x # xs). ct U s pre v \<and> obj = mkObject s pre v \<and>
          cn s pre v \<notin> seen \<and>
          (\<forall>w \<in> set (x # xs). ct U s pre w \<and> cn s pre w = cn s pre v \<longrightarrow> spec_key s v \<le> spec_key s w)"
        by (intro bexI [of _ x]) simp_all
      then show ?thesis ..
    next
      case later
      have "\<forall>w \<in> set (x # xs). ct U s pre w \<and> cn s pre w = cn s pre v \<longrightarrow> spec_key s v \<le> spec_key s w"
        using later(4,6) by auto
      with later have "\<exists>v \<in> set (x # xs). ct U s pre v \<and> obj = mkObject s pre v \<and>
          cn s pre v \<notin> seen \<and>
          (\<forall>w \<in> set (x # xs). ct U s pre w \<and> cn s pre w = cn s pre v \<longrightarrow> spec_key s v \<le> spec_key s w)"
        by (intro bexI [of _ v]) simp_all
      then show ?thesis ..
    qed
  next
    case False
    then have f: "fold (vfStep U s pre) xs (files, seen) = (files', seen')"
      using Cons.prems(2) by (auto simp: vfStep_alt)
    from Cons.IH [OF srt f Cons.prems(3)]
    consider (old) "obj \<in> set files"
      | (later) v where "v \<in> set xs" "ct U s pre v" "obj = mkObject s pre v"
          "cn s pre v \<notin> seen"
          "\<forall>w \<in> set xs. ct U s pre w \<and> cn s pre w = cn s pre v \<longrightarrow> spec_key s v \<le> spec_key s w"
      by auto
    then show ?thesis
    proof cases
      case old
      then show ?thesis by simp
    next
      case later
      have "\<not> (ct U s pre x \<and> cn s pre x = cn s pre v)"
        using False later(4) by auto
      then have "\<forall>w \<in> set (x # xs). ct U s pre w \<and> cn s pre w = cn s pre v \<longrightarrow> spec_key s v \<le> spec_key s w"
        using later(5) by auto
      with later have "\<exists>v \<in> set (x # xs). ct U s pre v \<and> obj = mkObject s pre v \<and>
          cn s pre v \<notin> seen \<and>
          (\<forall>w \<in> set (x # xs). ct U s pre w \<and> cn s pre w = cn s pre v \<longrightarrow> spec_key s v \<le> spec_key s w)"
        by (intro bexI [of _ v]) simp_all
      then show ?thesis ..
    qed
  qed
qed


lemma GetStorageVirtualFilesByPath_unfold:
  "GetStorageVirtualFilesByPath U s p =
     fst (fold (vfStep U s (spec_listPrefix U p))
            (sort_key (spec_key s) (Values (storagesMap s))) ([], {}))"
proof -
  have "(\<lambda>v. (Index (GetStorage s v), MountPath (GetStorage s v))) = spec_key s"
    by (rule ext) (simp add: spec_key_def)
  then show ?thesis
    by (simp add: GetStorageVirtualFilesByPath_def spec_listPrefix_def Let_def)
qed

lemma GetStorageVirtualFilesByPath_names:
  "set (map Name (GetStorageVirtualFilesByPath U s p)) =
     (\<lambda>v. spec_childName (spec_listPrefix U p) (MountPath (GetStorage s v))) `
       {v \<in> set (Values (storagesMap s)).
          spec_contributes U (spec_listPrefix U p) (MountPath (GetStorage s v))}"
proof -
  let ?xs = "sort_key (spec_key s) (Values (storagesMap s))"
  obtain files' seen' where
    f: "fold (vfStep U s (spec_listPrefix U p)) ?xs ([], {}) = (files', seen')"
    by (cases "fold (vfStep U s (spec_listPrefix U p)) ?xs ([], {})")
  from fold_vfStep_names [OF f] show ?thesis
    by (auto simp: GetStorageVirtualFilesByPath_unfold f)
qed

lemma GetStorageVirtualFilesByPath_distinct:
  "distinct (map Name (GetStorageVirtualFilesByPath U s p))"
proof -
  let ?xs = "sort_key (spec_key s) (Values (storagesMap s))"
  obtain files' seen' where
    f: "fold (vfStep U s (spec_listPrefix U p)) ?xs ([], {}) = (files', seen')"
    by (cases "fold (vfStep U s (spec_listPrefix U p)) ?xs ([], {})")
  from fold_vfStep_distinct [OF f] show ?thesis
    by (simp add: GetStorageVirtualFilesByPath_unfold f)
qed

lemma GetStorageVirtualFilesByPath_winner:
  assumes "obj \<in> set (GetStorageVirtualFilesByPath U s p)"
  shows "\<exists>v \<in> set (Values (storagesMap s)).
           spec_winner U s (spec_listPrefix U p) v \<and> obj = mkObject s (spec_listPrefix U p) v"
proof -
  let ?xs = "sort_key (spec_key s) (Values (storagesMap s))"
  obtain files' seen' where
    f: "fold (vfStep U s (spec_listPrefix U p)) ?xs ([], {}) = (files', seen')"
    by (cases "fold (vfStep U s (spec_listPrefix U p)) ?xs ([], {})")
  have srt: "sorted (map (spec_key s) ?xs)" by simp
  have o: "obj \<in> set files'" using assms by (simp add: GetStorageVirtualFilesByPath_unfold f)
  from fold_vfStep_first [OF srt f o]
  obtain v where "v \<in> set ?xs" "spec_contributes U (spec_listPrefix U p) (MountPath (GetStorage s v))"
    "obj = mkObject s (spec_listPrefix U p) v"
    "\<forall>w \<in> set ?xs. spec_contributes U (spec_listPrefix U p) (MountPath (GetStorage s w)) \<and>
        spec_childName (spec_listPrefix U p) (MountPath (GetStorage s w)) =
        spec_childName (spec_listPrefix U p) (MountPath (GetStorage s v)) \<longrightarrow>
        spec_key s v \<le> spec_key s w"
    by auto
  then have "v \<in> set (Values (storagesMap s))" "spec_winner U s (spec_listPrefix U p) v"
    "obj = mkObject s (spec_listPrefix U p) v"
    by (simp_all add: spec_winner_def)
  then show ?thesis by blast
qed

lemma example_contributes_root:
  assumes "IsBalance U ''/a/b.balance1''" and "\<not> IsBalance U ''/a/b''"
    and "\<not> IsBalance U ''/a/c''" and "\<not> IsBalance U ''/a/d/e''" and "\<not> IsBalance U ''/av''"
  shows "filter (spec_contributes U ''/'') [''/a/b'', ''/a/c'', ''/a/d/e'', ''/a/b.balance1'', ''/av'']
           = [''/a/b'', ''/a/c'', ''/a/d/e'', ''/av'']"
  using assms by (simp add: spec_contributes_def)

lemma example_contributes_a:
  assumes "IsBalance U ''/a/b.balance1''" and "\<not> IsBalance U ''/a/b''"
    and "\<not> IsBalance U ''/a/c''" and "\<not> IsBalance U ''/a/d/e''" and "\<not> IsBalance U ''/av''"
  shows "filter (spec_contributes U ''/a/'') [''/a/b'', ''/a/c'', ''/a/d/e'', ''/a/b.balance1'', ''/av'']
           = [''/a/b'', ''/a/c'', ''/a/d/e'']"
  using assms by (simp add: spec_contributes_def)

lemma example_childNames:
  "map (spec_childName ''/'') [''/a/b'', ''/a/c'', ''/a/d/e'', ''/av''] = [''a'', ''a'', ''a'', ''av'']"
  "map (spec_childName ''/a/'') [''/a/b'', ''/a/c'', ''/a/d/e''] = [''b'', ''c'', ''d'']"
  by (simp_all add: spec_childName_def)


lemma GetStorageVirtualFilesByPath_names_paths:
  assumes "mset (map (\<lambda>v. MountPath (GetStorage s v)) (Values (storagesMap s))) = mset L"
  shows "set (map Name (GetStorageVirtualFilesByPath U s p)) =
           set (map (spec_childName (spec_listPrefix U p))
                  (filter (spec_contributes U (spec_listPrefix U p)) L))"
proof -
  have "set L = (\<lambda>v. MountPath (GetStorage s v)) ` set (Values (storagesMap s))"
    using mset_eq_setD [OF assms] by simp
  then show ?thesis
    unfolding GetStorageVirtualFilesByPath_names by auto
qed

text \<open>
  C3, as the code has it. With exactly the mounts \<open>/a/b\<close>, \<open>/a/c\<close>, \<open>/a/d/e\<close>,
  \<open>/a/b.balance1\<close> and \<open>/av\<close> registered (in any order, with any \<open>Index\<close> and
  \<open>Modified\<close>), and helpers that leave \<open>/\<close> and \<open>/a\<close> as they are and take
  \<open>/a/b.balance1\<close>, and none of the others, for a balance member:
  \<open>GetStorageVirtualFilesByPath\<close> on \<open>/\<close> returns exactly the names \<open>a\<close> and \<open>av\<close>,
  on \<open>/a\<close> exactly the names \<open>b\<close>, \<open>c\<close> and \<open>d\<close>, each name once; every entry has
  size 0, is a folder, and carries the \<open>Modified\<close> of a winner for its name, a contributing
  driver least in the order by \<open>Index\<close>, then \<open>MountPath\<close>.
\<close>

theorem GetStorageVirtualFilesByPath_example:
  assumes "mset (map (\<lambda>v. MountPath (GetStorage s v)) (Values (storagesMap s))) =
             mset [''/a/b'', ''/a/c'', ''/a/d/e'', ''/a/b.balance1'', ''/av'']"
    and "StandardizePath U ''/'' = ''/''" and "StandardizePath U ''/a'' = ''/a''"
    and "IsBalance U ''/a/b.balance1''" and "\<not> IsBalance U ''/a/b''"
    and "\<not> IsBalance U ''/a/c''" and "\<not> IsBalance U ''/a/d/e''" and "\<not> IsBalance U ''/av''"
  shows "set (map Name (GetStorageVirtualFilesByPath U s ''/'')) = {''a'', ''av''} \<and>
         distinct (map Name (GetStorageVirtualFilesByPath U s ''/'')) \<and>
         set (map Name (GetStorageVirtualFilesByPath U s ''/a'')) = {''b'', ''c'', ''d''} \<and>
         distinct (map Name (GetStorageVirtualFilesByPath U s ''/a'')) \<and>
         (\<forall>obj \<in> set (GetStorageVirtualFilesByPath U s ''/'').
            Size obj = 0 \<and> IsFolder obj \<and>
            (\<exists>v \<in> set (Values (storagesMap s)). spec_winner U s ''/'' v \<and>
               Name obj = spec_childName ''/'' (MountPath (GetStorage s v)) \<and>
               Modified_obj obj = Modified (GetStorage s v))) \<and>
         (\<forall>obj \<in> set (GetStorageVirtualFilesByPath U s ''/a'').
            Size obj = 0 \<and> IsFolder obj \<and>
            (\<exists>v \<in> set (Values (storagesMap s)). spec_winner U s ''/a/'' v \<and>
               Name obj = spec_childName ''/a/'' (MountPath (GetStorage s v)) \<and>
               Modified_obj obj = Modified (GetStorage s v)))"
proof -
  have p1: "spec_listPrefix U ''/'' = ''/''" using assms(2) by (simp add: spec_listPrefix_def)
  have p2: "spec_listPrefix U ''/a'' = ''/a/''" using assms(3) by (simp add: spec_listPrefix_def)
  have n1: "set (map Name (GetStorageVirtualFilesByPath U s ''/'')) = {''a'', ''av''}"
    unfolding GetStorageVirtualFilesByPath_names_paths [OF assms(1)] p1
      example_contributes_root [OF assms(4-8)] example_childNames
    by simp
  have n2: "set (map Name (GetStorageVirtualFilesByPath U s ''/a'')) = {''b'', ''c'', ''d''}"
    unfolding GetStorageVirtualFilesByPath_names_paths [OF assms(1)] p2
      example_contributes_a [OF assms(4-8)] example_childNames
    by simp
  have w: "Size obj = 0 \<and> IsFolder obj \<and>
      (\<exists>v \<in> set (Values (storagesMap s)). spec_winner U s (spec_listPrefix U p) v \<and>
         Name obj = spec_childName (spec_listPrefix U p) (MountPath (GetStorage s v)) \<and>
         Modified_obj obj = Modified (GetStorage s v))"
    if "obj \<in> set (GetStorageVirtualFilesByPath U s p)" for obj p
  proof -
    from GetStorageVirtualFilesByPath_winner [OF that]
    obtain v where v: "v \<in> set (Values (storagesMap s))" "spec_winner U s (spec_listPrefix U p) v"
      "obj = mkObject s (spec_listPrefix U p) v"
      by blast
    have "Size obj = 0" "IsFolder obj"
      "Name obj = spec_childName (spec_listPrefix U p) (MountPath (GetStorage s v))"
      "Modified_obj obj = Modified (GetStorage s v)"
      using v(3) by (simp_all add: mkObject_def)
    with v(1,2) show ?thesis by blast
  qed
  have w1: "\<forall>obj \<in> set (GetStorageVirtualFilesByPath U s ''/'').
            Size obj = 0 \<and> IsFolder obj \<and>
            (\<exists>v \<in> set (Values (storagesMap s)). spec_winner U s ''/'' v \<and>
               Name obj = spec_childName ''/'' (MountPath (GetStorage s v)) \<and>
               Modified_obj obj = Modified (GetStorage s v))"
    using w [of _ "''/''"] unfolding p1 by blast
  have w2: "\<forall>obj \<in> set (GetStorageVirtualFilesByPath U s ''/a'').
            Size obj = 0 \<and> IsFolder obj \<and>
            (\<exists>v \<in> set (Values (storagesMap s)). spec_winner U s ''/a/'' v \<and>
               Name obj = spec_childName ''/a/'' (MountPath (GetStorage s v)) \<and>
               Modified_obj obj = Modified (GetStorage s v))"
    using w [of _ "''/a''"] unfolding p2 by blast
  from n1 n2 w1 w2 GetStorageVirtualFilesByPath_distinct [of U s "''/''"]
    GetStorageVirtualFilesByPath_distinct [of U s "''/a''"]
  show ?thesis by (intro conjI)
qed


lemma example_listing_root:
  "map Name (GetStorageVirtualFilesByPath spec_utils example_state ''/'') = [''a'', ''av'']"
  by code_simp

lemma example_listing_a:
  "map Name (GetStorageVirtualFilesByPath spec_utils example_state ''/a'') = [''b'', ''c'', ''d'']"
  by code_simp

lemma example_helpers:
  "StandardizePath spec_utils ''/'' = ''/''" "StandardizePath spec_utils ''/a'' = ''/a''"
  "IsBalance spec_utils ''/a/b.balance1''" "\<not> IsBalance spec_utils ''/a/b''"
  "\<not> IsBalance spec_utils ''/a/c''" "\<not> IsBalance spec_utils ''/a/d/e''"
  "\<not> IsBalance spec_utils ''/av''"
  by code_simp+

lemma example_mounts:
  "mset (map (\<lambda>v. MountPath (GetStorage example_state v)) (Values (storagesMap example_state)))
     = mset [''/a/b'', ''/a/c'', ''/a/d/e'', ''/a/b.balance1'', ''/av'']"
  unfolding example_mount_paths by simp

theorem GetStorageVirtualFilesByPath_example_witness:
  "mset (map (\<lambda>v. MountPath (GetStorage example_state v)) (Values (storagesMap example_state)))
     = mset [''/a/b'', ''/a/c'', ''/a/d/e'', ''/a/b.balance1'', ''/av''] \<and>
   StandardizePath spec_utils ''/'' = ''/'' \<and> StandardizePath spec_utils ''/a'' = ''/a'' \<and>
   IsBalance spec_utils ''/a/b.balance1'' \<and> \<not> IsBalance spec_utils ''/a/b'' \<and>
   \<not> IsBalance spec_utils ''/a/c'' \<and> \<not> IsBalance spec_utils ''/a/d/e'' \<and>
   \<not> IsBalance spec_utils ''/av'' \<and>
   set (map Name (GetStorageVirtualFilesByPath spec_utils example_state ''/'')) = {''a'', ''av''} \<and>
   set (map Name (GetStorageVirtualFilesByPath spec_utils example_state ''/a''))
     = {''b'', ''c'', ''d''}"
  using GetStorageVirtualFilesByPath_example [OF example_mounts example_helpers]
    example_mounts example_helpers
  by (intro conjI) blast+

text \<open>
  C3, as the specification states it, fails: on \<open>/\<close> the synthesizer also lists \<open>av\<close>,
  the mount directly below the root.
\<close>

theorem GetStorageVirtualFilesByPath_root_counterexample:
  "set (map Name (GetStorageVirtualFilesByPath spec_utils example_state ''/'')) \<noteq> {''a''}"
  unfolding example_listing_root by simp


section \<open>The lifecycle\<close>

lemma db_GetStorageById_Inr:
  "db_GetStorageById x i s = Inr st \<longleftrightarrow> gormFirst x = None \<and> rows s i = Some st"
  by (auto simp: db_GetStorageById_def db_First_def split: option.splits sum.splits)

lemma GetStorageByVirtualPath_Inr:
  "GetStorageByVirtualPath s p = Inr d \<longleftrightarrow> Load (storagesMap s) p = Some d"
  by (auto simp: GetStorageByVirtualPath_def split: option.splits)

lemma GetStorageByVirtualPath_None:
  "Load (storagesMap s) p = None \<Longrightarrow>
   GetStorageByVirtualPath s p = Inl (Errorf (''no virtual path for an storage is: '' @ p))"
  by (simp add: GetStorageByVirtualPath_def)

lemma drv_Drop_None:
  "drv_Drop x d s = (None, s') \<longleftrightarrow> DropFault x = None \<and> s' = s"
  by (auto simp: drv_Drop_def split: option.splits)

lemma drv_Drop_storagesMap: "storagesMap (snd (drv_Drop x d s)) = storagesMap s"
  by (simp add: drv_Drop_def split: option.splits prod.splits)

lemma db_DeleteStorageById_None:
  "db_DeleteStorageById x i s = (None, s') \<longleftrightarrow>
     gormDelete x = None \<and> s' = s\<lparr>rows := (rows s)(i := None)\<rparr>"
  by (auto simp: db_DeleteStorageById_def db_Delete_def split: option.splits)

lemma db_DeleteStorageById_storagesMap:
  "storagesMap (snd (db_DeleteStorageById x i s)) = storagesMap s"
  by (simp add: db_DeleteStorageById_def db_Delete_def split: option.splits)

lemma DeleteStorageById_success:
  assumes "fst (DeleteStorageById x i s) = None"
  shows "\<exists>st d. gormFirst x = None \<and> rows s i = Some st \<and>
           Load (storagesMap s) (MountPath st) = Some d \<and>
           DropFault x = None \<and> gormDelete x = None \<and>
           snd (DeleteStorageById x i s) =
             s\<lparr>rows := (rows s)(i := None),
               storagesMap := Delete (storagesMap s) (MountPath st)\<rparr>"
proof (cases "db_GetStorageById x i s")
  case (Inl e)
  with assms show ?thesis by (simp add: DeleteStorageById_def)
next
  case (Inr st)
  note row = Inr
  show ?thesis
  proof (cases "GetStorageByVirtualPath s (MountPath st)")
    case (Inl e)
    with assms row show ?thesis by (simp add: DeleteStorageById_def)
  next
    case (Inr d)
    obtain e1 s1 where dr: "drv_Drop x d s = (e1, s1)" by (cases "drv_Drop x d s")
    obtain e2 s2 where dl: "db_DeleteStorageById x i s1 = (e2, s2)"
      by (cases "db_DeleteStorageById x i s1")
    have e1: "e1 = None"
      using assms row Inr dr by (cases e1) (simp_all add: DeleteStorageById_def)
    have e2: "e2 = None"
      using assms row Inr dr dl e1 by (cases e2) (simp_all add: DeleteStorageById_def)
    have s1: "DropFault x = None" "s1 = s" using dr e1 by (simp_all add: drv_Drop_None)
    have s2: "gormDelete x = None" "s2 = s\<lparr>rows := (rows s)(i := None)\<rparr>"
      using dl e2 s1 by (simp_all add: db_DeleteStorageById_None)
    have "snd (DeleteStorageById x i s) =
        s\<lparr>rows := (rows s)(i := None), storagesMap := Delete (storagesMap s) (MountPath st)\<rparr>"
      using row Inr dr dl e1 e2 s1 s2 by (simp add: DeleteStorageById_def)
    with row Inr s1 s2 show ?thesis
      by (simp add: db_GetStorageById_Inr GetStorageByVirtualPath_Inr)
  qed
qed

lemma DeleteStorageById_storagesMap_on_error:
  assumes "fst (DeleteStorageById x i s) \<noteq> None"
  shows "storagesMap (snd (DeleteStorageById x i s)) = storagesMap s"
proof (cases "db_GetStorageById x i s")
  case (Inl e)
  then show ?thesis by (simp add: DeleteStorageById_def)
next
  case (Inr st)
  note row = Inr
  show ?thesis
  proof (cases "GetStorageByVirtualPath s (MountPath st)")
    case (Inl e)
    with row show ?thesis by (simp add: DeleteStorageById_def)
  next
    case (Inr d)
    obtain e1 s1 where dr: "drv_Drop x d s = (e1, s1)" by (cases "drv_Drop x d s")
    obtain e2 s2 where dl: "db_DeleteStorageById x i s1 = (e2, s2)"
      by (cases "db_DeleteStorageById x i s1")
    have m1: "storagesMap s1 = storagesMap s" using drv_Drop_storagesMap [of x d s] dr by simp
    have m2: "storagesMap s2 = storagesMap s"
      using db_DeleteStorageById_storagesMap [of x i s1] dl m1 by simp
    show ?thesis
    proof (cases e1)
      case (Some e)
      with row Inr dr m1 show ?thesis by (simp add: DeleteStorageById_def)
    next
      case None
      note n1 = None
      show ?thesis
      proof (cases e2)
        case (Some e)
        with row Inr dr dl n1 m2 show ?thesis by (simp add: DeleteStorageById_def)
      next
        case None
        with row Inr dr dl n1 assms show ?thesis by (simp add: DeleteStorageById_def)
      qed
    qed
  qed
qed

lemma DeleteStorageById_fails_iff:
  "fst (DeleteStorageById x i s) \<noteq> None \<longleftrightarrow> spec_delete_fails x i s"
proof
  assume "spec_delete_fails x i s"
  show "fst (DeleteStorageById x i s) \<noteq> None"
  proof
    assume "fst (DeleteStorageById x i s) = None"
    from DeleteStorageById_success [OF this] obtain st d where
      "gormFirst x = None" "rows s i = Some st" "Load (storagesMap s) (MountPath st) = Some d"
      "DropFault x = None" "gormDelete x = None" by blast
    then have "\<not> spec_delete_fails x i s"
      by (simp add: spec_delete_fails_def db_GetStorageById_def db_First_def)
    with \<open>spec_delete_fails x i s\<close> show False by simp
  qed
next
  assume f: "fst (DeleteStorageById x i s) \<noteq> None"
  show "spec_delete_fails x i s"
  proof (rule ccontr)
    assume n: "\<not> spec_delete_fails x i s"
    then have dr: "DropFault x = None" and dl: "gormDelete x = None"
      and c: "\<not> (case db_GetStorageById x i s of Inl e \<Rightarrow> True
                  | Inr st \<Rightarrow> Load (storagesMap s) (MountPath st) = None)"
      unfolding spec_delete_fails_def by blast+
    from c obtain st where row: "db_GetStorageById x i s = Inr st"
      and ld: "Load (storagesMap s) (MountPath st) \<noteq> None"
      by (cases "db_GetStorageById x i s") simp_all
    from ld obtain d where d: "Load (storagesMap s) (MountPath st) = Some d" by blast
    have "fst (DeleteStorageById x i s) = None"
      using row d dr dl
      by (simp add: DeleteStorageById_def GetStorageByVirtualPath_def drv_Drop_def
            db_DeleteStorageById_def db_Delete_def)
    with f show False by simp
  qed
qed

lemma UpdateStorage_success:
  assumes "fst (UpdateStorage U x st s) = None"
    and "db_GetStorageById x (ID st) s = Inr old"
  shows "\<exists>d. Load (storagesMap s) (MountPath old) = Some d \<and>
           storagesMap (snd (UpdateStorage U x st s)) =
             Store (if MountPath old \<noteq> StandardizePath U (MountPath st)
                    then Delete (storagesMap s) (MountPath old) else storagesMap s)
               (StandardizePath U (MountPath st)) d \<and>
           GetStorage (snd (UpdateStorage U x st s)) d =
             st\<lparr>Modified := Now x, MountPath := StandardizePath U (MountPath st)\<rparr>"
  using assms
  by (auto simp: UpdateStorage_def Let_def db_UpdateStorage_def db_Save_def
        GetStorageByVirtualPath_def drv_Drop_def drv_Init_def GetStorage_def
      split: option.splits sum.splits prod.splits if_splits)

lemma CreateStorage_success:
  assumes "fst (CreateStorage U x st s) = None"
  shows "\<exists>i. gormCreate x = Inr i \<and>
           storagesMap (snd (CreateStorage U x st s)) =
             Store (storagesMap s) (StandardizePath U (MountPath st)) (nextRef s) \<and>
           GetStorage (snd (CreateStorage U x st s)) (nextRef s) =
             st\<lparr>Modified := Now x, MountPath := StandardizePath U (MountPath st), ID := i\<rparr> \<and>
           rows (snd (CreateStorage U x st s)) i =
             Some (st\<lparr>Modified := Now x, MountPath := StandardizePath U (MountPath st), ID := i\<rparr>)"
  using assms
  by (auto simp: CreateStorage_def Let_def db_CreateStorage_def db_Create_def
        drv_Init_def GetStorage_def
      split: option.splits sum.splits prod.splits if_splits)


lemma Values_Delete:
  "v \<in> set (Values (Delete m k)) \<Longrightarrow> \<exists>k'. k' \<noteq> k \<and> (k', v) \<in> set m"
proof (induction m)
  case Nil
  then show ?case by (simp add: Values_def Delete_def)
next
  case (Cons kv m)
  obtain k0 v0 where kv: "kv = (k0, v0)" by (cases kv)
  show ?case
  proof (cases "k0 = k")
    case True
    with Cons kv show ?thesis by (auto simp: Values_def Delete_def)
  next
    case False
    with Cons kv show ?thesis by (auto simp: Values_def Delete_def)
  qed
qed

text \<open>
  C4. When \<open>DeleteStorageById\<close> succeeds for an id whose row is persisted and whose
  driver \<open>d\<close> is registered under the row's mount path (and under no other key), then
  afterwards \<open>d\<close> is in no result of \<open>getStoragesByPath\<close>, every entry of every result of
  \<open>GetStorageVirtualFilesByPath\<close> is the entry of a registered driver other than \<open>d\<close>,
  and \<open>GetStorageByVirtualPath\<close> on the old mount path returns the error
  \<open>no virtual path for an storage is: ...\<close>, the not-found error of the registry.
\<close>

theorem DeleteStorageById_removes:
  assumes "DeleteStorageById x i s = (None, s')"
    and "rows s i = Some st"
    and "Load (storagesMap s) (MountPath st) = Some d"
    and "\<forall>kv \<in> set (storagesMap s). snd kv = d \<longrightarrow> fst kv = MountPath st"
  shows "(\<forall>p. d \<notin> set (getStoragesByPath U s' p)) \<and>
         (\<forall>p. \<forall>obj \<in> set (GetStorageVirtualFilesByPath U s' p).
            \<exists>v \<in> set (Values (storagesMap s')). v \<noteq> d \<and>
              obj = mkObject s' (spec_listPrefix U p) v) \<and>
         GetStorageByVirtualPath s' (MountPath st) =
           Inl (Errorf (''no virtual path for an storage is: '' @ MountPath st))"
proof -
  have "fst (DeleteStorageById x i s) = None" using assms(1) by simp
  from DeleteStorageById_success [OF this] assms(1,2)
  have s': "s' = s\<lparr>rows := (rows s)(i := None),
                  storagesMap := Delete (storagesMap s) (MountPath st)\<rparr>"
    by auto
  have gone: "d \<notin> set (Values (storagesMap s'))"
  proof
    assume "d \<in> set (Values (storagesMap s'))"
    then obtain k' where "k' \<noteq> MountPath st" "(k', d) \<in> set (storagesMap s)"
      using Values_Delete [of d "storagesMap s" "MountPath st"] by (auto simp: s')
    with assms(4) show False by auto
  qed
  have a: "d \<notin> set (getStoragesByPath U s' p)" for p
    using getStoragesByPath_subset [of U s' p] gone by auto
  have b: "\<exists>v \<in> set (Values (storagesMap s')). v \<noteq> d \<and> obj = mkObject s' (spec_listPrefix U p) v"
    if "obj \<in> set (GetStorageVirtualFilesByPath U s' p)" for obj p
  proof -
    from GetStorageVirtualFilesByPath_winner [OF that] obtain v where
      v: "v \<in> set (Values (storagesMap s'))" "obj = mkObject s' (spec_listPrefix U p) v"
      by blast
    have "v \<noteq> d" using v(1) gone by auto
    with v show ?thesis by (intro bexI [of _ v]) simp_all
  qed
  have c: "GetStorageByVirtualPath s' (MountPath st) =
      Inl (Errorf (''no virtual path for an storage is: '' @ MountPath st))"
    by (rule GetStorageByVirtualPath_None) (simp add: s' Load_Delete)
  from a b c show ?thesis by blast
qed

theorem DeleteStorageById_removes_witness:
  "fst (DeleteStorageById example_ext 1 example_state) = None \<and>
   rows example_state 1 = Some (storage (example_heap 0)) \<and>
   Load (storagesMap example_state) (MountPath (storage (example_heap 0))) = Some 0 \<and>
   0 \<notin> set (getStoragesByPath spec_utils (snd (DeleteStorageById example_ext 1 example_state))
              ''/a/b'') \<and>
   GetStorageByVirtualPath (snd (DeleteStorageById example_ext 1 example_state)) ''/a/b'' =
     Inl (Errorf ''no virtual path for an storage is: /a/b'')"
proof -
  have f: "fst (DeleteStorageById example_ext 1 example_state) = None" by code_simp
  then have e: "DeleteStorageById example_ext 1 example_state =
      (None, snd (DeleteStorageById example_ext 1 example_state))"
    by (simp add: prod_eq_iff)
  have r: "rows example_state 1 = Some (storage (example_heap 0))"
    by (simp add: example_state_def example_rows_def)
  have mp: "MountPath (storage (example_heap 0)) = ''/a/b''"
    by (simp add: example_heap_def mount_def)
  have l: "Load (storagesMap example_state) (MountPath (storage (example_heap 0))) = Some 0"
    unfolding mp by (simp add: example_state_def Load_def)
  have o: "\<forall>kv \<in> set (storagesMap example_state).
      snd kv = 0 \<longrightarrow> fst kv = MountPath (storage (example_heap 0))"
    unfolding mp by (simp add: example_state_def)
  from DeleteStorageById_removes [OF e r l o, of spec_utils] f r l show ?thesis
    unfolding mp by simp
qed

text \<open>
  C5. When the row of the request's id is persisted and loads, and the request names
  another driver type than the row, \<open>UpdateStorage\<close> returns the error
  \<open>driver cannot be changed\<close> and the state it returns is the state it was given: the
  rows, the registry and the driver objects are untouched.
\<close>

theorem UpdateStorage_driver_immutable:
  assumes "gormFirst x = None" and "rows s (ID st) = Some old" and "Driver st \<noteq> Driver old"
  shows "UpdateStorage U x st s = (Some (Errorf ''driver cannot be changed''), s)"
proof -
  have "db_GetStorageById x (ID st) s = Inr old"
    using assms(1,2) by (simp add: db_GetStorageById_Inr)
  with assms(3) show ?thesis by (auto simp: UpdateStorage_def)
qed

theorem UpdateStorage_driver_immutable_witness:
  "gormFirst example_ext = None \<and>
   rows example_state (ID example_other_driver) = Some (storage (example_heap 0)) \<and>
   Driver example_other_driver \<noteq> Driver (storage (example_heap 0)) \<and>
   UpdateStorage spec_utils example_ext example_other_driver example_state =
     (Some (Errorf ''driver cannot be changed''), example_state)"
proof -
  have a: "gormFirst example_ext = None" by (simp add: example_ext_def)
  have b: "rows example_state (ID example_other_driver) = Some (storage (example_heap 0))"
    by (simp add: example_state_def example_rows_def example_other_driver_def
          example_heap_def mount_def)
  have c: "Driver example_other_driver \<noteq> Driver (storage (example_heap 0))"
    by (simp add: example_other_driver_def example_heap_def mount_def)
  from UpdateStorage_driver_immutable [OF a b c, of spec_utils] a b c show ?thesis by simp
qed

text \<open>
  C6. When \<open>UpdateStorage\<close> succeeds and the normalised new mount path differs from the
  mount path of the persisted row, the driver \<open>d\<close> that was registered under the old mount
  path is registered under the new one, exposes the new configuration, and the old mount
  path is not found any more.
\<close>

theorem UpdateStorage_rename:
  assumes "UpdateStorage U x st s = (None, s')"
    and "rows s (ID st) = Some old"
    and "StandardizePath U (MountPath st) \<noteq> MountPath old"
  shows "\<exists>d. GetStorageByVirtualPath s (MountPath old) = Inr d \<and>
           GetStorageByVirtualPath s' (StandardizePath U (MountPath st)) = Inr d \<and>
           GetStorage s' d =
             st\<lparr>Modified := Now x, MountPath := StandardizePath U (MountPath st)\<rparr> \<and>
           GetStorageByVirtualPath s' (MountPath old) =
             Inl (Errorf (''no virtual path for an storage is: '' @ MountPath old))"
proof -
  have ok: "fst (UpdateStorage U x st s) = None" and s': "snd (UpdateStorage U x st s) = s'"
    using assms(1) by simp_all
  have "gormFirst x = None"
  proof (cases "gormFirst x")
    case (Some e)
    then have "db_GetStorageById x (ID st) s = Inl (WithStack e)"
      by (simp add: db_GetStorageById_def db_First_def)
    with ok show ?thesis by (simp add: UpdateStorage_def)
  qed simp
  then have row: "db_GetStorageById x (ID st) s = Inr old"
    using assms(2) by (simp add: db_GetStorageById_Inr)
  from UpdateStorage_success [OF ok row] assms(3) obtain d where
    d: "Load (storagesMap s) (MountPath old) = Some d"
    and m: "storagesMap s' =
        Store (Delete (storagesMap s) (MountPath old)) (StandardizePath U (MountPath st)) d"
    and g: "GetStorage s' d = st\<lparr>Modified := Now x, MountPath := StandardizePath U (MountPath st)\<rparr>"
    unfolding s' by auto
  have 1: "GetStorageByVirtualPath s (MountPath old) = Inr d"
    using d by (simp add: GetStorageByVirtualPath_Inr)
  have 2: "GetStorageByVirtualPath s' (StandardizePath U (MountPath st)) = Inr d"
    by (simp add: GetStorageByVirtualPath_Inr m Load_Store)
  have 3: "GetStorageByVirtualPath s' (MountPath old) =
      Inl (Errorf (''no virtual path for an storage is: '' @ MountPath old))"
    using assms(3) by (intro GetStorageByVirtualPath_None) (simp add: m Load_Store Load_Delete)
  from 1 2 3 g show ?thesis by blast
qed

theorem UpdateStorage_rename_witness:
  "fst (UpdateStorage spec_utils example_ext example_rename example_state) = None \<and>
   rows example_state (ID example_rename) = Some (storage (example_heap 0)) \<and>
   StandardizePath spec_utils (MountPath example_rename) \<noteq> MountPath (storage (example_heap 0)) \<and>
   GetStorageByVirtualPath
     (snd (UpdateStorage spec_utils example_ext example_rename example_state)) ''/x/y'' = Inr 0 \<and>
   GetStorageByVirtualPath
     (snd (UpdateStorage spec_utils example_ext example_rename example_state)) ''/a/b''
     = Inl (Errorf ''no virtual path for an storage is: /a/b'')"
proof -
  have f: "fst (UpdateStorage spec_utils example_ext example_rename example_state) = None"
    by code_simp
  then have e: "UpdateStorage spec_utils example_ext example_rename example_state =
      (None, snd (UpdateStorage spec_utils example_ext example_rename example_state))"
    by (simp add: prod_eq_iff)
  have r: "rows example_state (ID example_rename) = Some (storage (example_heap 0))"
    by (simp add: example_state_def example_rows_def example_rename_def example_heap_def mount_def)
  have n: "StandardizePath spec_utils (MountPath example_rename) = ''/x/y''" by code_simp
  have mp: "MountPath (storage (example_heap 0)) = ''/a/b''"
    by (simp add: example_heap_def mount_def)
  have c: "StandardizePath spec_utils (MountPath example_rename) \<noteq> MountPath (storage (example_heap 0))"
    unfolding n mp by simp
  have l: "GetStorageByVirtualPath example_state ''/a/b'' = Inr 0" by code_simp
  from UpdateStorage_rename [OF e r c] f r c l show ?thesis
    unfolding n mp by auto
qed

text \<open>
  C7. When \<open>CreateStorage\<close> succeeds, the repository assigned an id \<open>i\<close>, and
  \<open>GetStorageByVirtualPath\<close> on the normalised mount path returns a driver whose exposed
  storage has the id \<open>i\<close> and is the row persisted under \<open>i\<close>.
\<close>

theorem CreateStorage_id:
  assumes "CreateStorage U x st s = (None, s')"
  shows "\<exists>i d. gormCreate x = Inr i \<and> rows s' i = Some (GetStorage s' d) \<and>
           GetStorageByVirtualPath s' (StandardizePath U (MountPath st)) = Inr d \<and>
           ID (GetStorage s' d) = i"
proof -
  have ok: "fst (CreateStorage U x st s) = None" and s': "snd (CreateStorage U x st s) = s'"
    using assms by simp_all
  from CreateStorage_success [OF ok] obtain i where
    i: "gormCreate x = Inr i"
    and m: "storagesMap s' = Store (storagesMap s) (StandardizePath U (MountPath st)) (nextRef s)"
    and g: "GetStorage s' (nextRef s) =
        st\<lparr>Modified := Now x, MountPath := StandardizePath U (MountPath st), ID := i\<rparr>"
    and r: "rows s' i =
        Some (st\<lparr>Modified := Now x, MountPath := StandardizePath U (MountPath st), ID := i\<rparr>)"
    unfolding s' by blast
  have 1: "GetStorageByVirtualPath s' (StandardizePath U (MountPath st)) = Inr (nextRef s)"
    by (simp add: GetStorageByVirtualPath_Inr m Load_Store)
  have 2: "ID (GetStorage s' (nextRef s)) = i" by (simp add: g)
  have 3: "rows s' i = Some (GetStorage s' (nextRef s))" by (simp add: g r)
  from i 1 2 3 show ?thesis by blast
qed

theorem CreateStorage_id_witness:
  "fst (CreateStorage spec_utils example_ext example_new example_state) = None \<and>
   gormCreate example_ext = Inr 6 \<and>
   GetStorageByVirtualPath
     (snd (CreateStorage spec_utils example_ext example_new example_state)) ''/new'' = Inr 5 \<and>
   ID (GetStorage (snd (CreateStorage spec_utils example_ext example_new example_state)) 5) = 6"
proof -
  have f: "fst (CreateStorage spec_utils example_ext example_new example_state) = None"
    by code_simp
  then have e: "CreateStorage spec_utils example_ext example_new example_state =
      (None, snd (CreateStorage spec_utils example_ext example_new example_state))"
    by (simp add: prod_eq_iff)
  have g: "gormCreate example_ext = Inr 6" by (simp add: example_ext_def)
  have n: "StandardizePath spec_utils (MountPath example_new) = ''/new''" by code_simp
  have l: "GetStorageByVirtualPath
     (snd (CreateStorage spec_utils example_ext example_new example_state)) ''/new'' = Inr 5"
    by code_simp
  from CreateStorage_id [OF e] f g l show ?thesis
    unfolding n by auto
qed

text \<open>
  C10. When \<open>DeleteStorageById\<close> fails in one of its four ways (the row does not load,
  the registry has no entry for the row's mount path, \<open>Drop\<close> fails, the deletion of the
  row fails), it returns an error and the registry is the one it was given, so that every
  path resolves through \<open>GetStorageByVirtualPath\<close> as it did before.
\<close>

theorem DeleteStorageById_failure_keeps_registry:
  assumes "spec_delete_fails x i s"
  shows "(\<exists>e. fst (DeleteStorageById x i s) = Some e) \<and>
         storagesMap (snd (DeleteStorageById x i s)) = storagesMap s \<and>
         (\<forall>p. GetStorageByVirtualPath (snd (DeleteStorageById x i s)) p =
               GetStorageByVirtualPath s p)"
proof -
  have f: "fst (DeleteStorageById x i s) \<noteq> None"
    using assms by (simp only: DeleteStorageById_fails_iff)
  have m: "storagesMap (snd (DeleteStorageById x i s)) = storagesMap s"
    using f by (rule DeleteStorageById_storagesMap_on_error)
  from f m show ?thesis by (auto simp: GetStorageByVirtualPath_def)
qed


theorem DeleteStorageById_failure_keeps_registry_witness:
  "spec_delete_fails example_ext_drop_fails 1 example_state \<and>
   fst (DeleteStorageById example_ext_drop_fails 1 example_state) =
     Some (WithMessage (Cause ''timeout'') ''failed drop storage'') \<and>
   storagesMap (snd (DeleteStorageById example_ext_drop_fails 1 example_state)) =
     storagesMap example_state \<and>
   GetStorageByVirtualPath (snd (DeleteStorageById example_ext_drop_fails 1 example_state))
     ''/a/b'' = Inr 0"
proof -
  have a: "spec_delete_fails example_ext_drop_fails 1 example_state"
    by (simp add: spec_delete_fails_def example_ext_drop_fails_def)
  have b: "fst (DeleteStorageById example_ext_drop_fails 1 example_state) =
     Some (WithMessage (Cause ''timeout'') ''failed drop storage'')"
    by code_simp
  have c: "GetStorageByVirtualPath example_state ''/a/b'' = Inr 0" by code_simp
  from DeleteStorageById_failure_keeps_registry [OF a] a b c show ?thesis by simp
qed


end
